theory Spec2Isabelle
  imports Complex_Main "HOL-Library.Multiset"
begin

section \<open>The gonpi client: data model\<close>

text \<open>
  A shallow embedding of the request-execution core of the gonpi client (the file
  with \<open>NewClient\<close>, \<open>GetProviderByNPI\<close>, \<open>SearchProviders\<close>, \<open>buildQueryParams\<close>,
  \<open>doRequestWithRetry\<close>, \<open>doRequest\<close>, \<open>shouldRetry\<close>, \<open>getCached\<close>, \<open>setCached\<close>,
  \<open>cleanupCache\<close> and \<open>GetProvidersByNPIs\<close>).

  Go's \<open>int\<close>, \<open>time.Duration\<close> and \<open>time.Time\<close> are modelled as \<open>int\<close> (durations and
  instants in nanoseconds); no arithmetic of the program on them leaves the 64-bit range
  except the float-to-Duration conversion of the backoff delay, which is modelled with
  its range. Tracing spans are omitted: they do not influence any result.
\<close>

subsection \<open>Errors\<close>

text \<open>
  Go error values. \<open>APIError\<close> is the struct \<open>*APIError{StatusCode, Message}\<close>;
  \<open>Wrapped msg e\<close> is \<open>fmt.Errorf("msg: %w", e)\<close> (a nil \<open>e\<close> is \<open>None\<close>);
  \<open>Plain\<close> is any other error (\<open>fmt.Errorf\<close> without \<open>%w\<close>, an error of the HTTP
  transport, of the JSON decoder, or \<open>ctx.Err()\<close>).
\<close>

datatype err =
    APIError int string
  | Wrapped string "err option"
  | Plain string

subsection \<open>strconv.Itoa\<close>

definition digitChar :: "nat \<Rightarrow> char" where
  "digitChar d = ''0123456789'' ! d"

function natDigits :: "nat \<Rightarrow> string" where
  "natDigits n = (if n < 10 then [digitChar n] else natDigits (n div 10) @ [digitChar (n mod 10)])"
  by pat_completeness auto
termination
  by (relation "measure (\<lambda>n. n)") auto

declare natDigits.simps [simp del]

definition Itoa :: "int \<Rightarrow> string" where
  "Itoa i = (if i < 0 then CHR ''-'' # natDigits (nat (- i)) else natDigits (nat i))"

subsection \<open>Search options and query parameters\<close>

record SearchOptions =
  Number :: string
  EnumerationType :: string
  FirstName :: string
  LastName :: string
  OrganizationName :: string
  TaxonomyDescription :: string
  AddressPurpose :: string
  City :: string
  State :: string
  PostalCode :: string
  CountryCode :: string
  Limit :: int
  Skip :: int
  Pretty :: bool

text \<open>
  \<open>url.Values\<close> restricted to what \<open>buildQueryParams\<close> does with it: every key is written
  with \<open>Set\<close>, which replaces the key's value list by one value.
\<close>

type_synonym Values = "string \<rightharpoonup> string"

definition DefaultLimit :: int where
  "DefaultLimit = 10"

definition MaxLimit :: int where
  "MaxLimit = 200"

definition DefaultMaxRetries :: int where
  "DefaultMaxRetries = 3"

text \<open>\<open>if v != "" { params.Set(k, v) }\<close>\<close>

definition setNonEmpty :: "string \<Rightarrow> string \<Rightarrow> Values \<Rightarrow> Values" where
  "setNonEmpty k v params = (if v \<noteq> [] then params(k \<mapsto> v) else params)"

definition buildQueryParams :: "SearchOptions \<Rightarrow> Values" where
  "buildQueryParams opts =
    (let params = Map.empty;
         params = params(''version'' \<mapsto> ''2.1'');
         params = setNonEmpty ''number'' (Number opts) params;
         params = setNonEmpty ''enumeration_type'' (EnumerationType opts) params;
         params = setNonEmpty ''first_name'' (FirstName opts) params;
         params = setNonEmpty ''last_name'' (LastName opts) params;
         params = setNonEmpty ''organization_name'' (OrganizationName opts) params;
         params = setNonEmpty ''taxonomy_description'' (TaxonomyDescription opts) params;
         params = setNonEmpty ''address_purpose'' (AddressPurpose opts) params;
         params = setNonEmpty ''city'' (City opts) params;
         params = setNonEmpty ''state'' (State opts) params;
         params = setNonEmpty ''postal_code'' (PostalCode opts) params;
         params = setNonEmpty ''country_code'' (CountryCode opts) params;
         limit = Limit opts;
         limit = (if limit = 0 then DefaultLimit
                  else if limit > MaxLimit then MaxLimit else limit);
         params = params(''limit'' \<mapsto> Itoa limit);
         params = (if Skip opts > 0 then params(''skip'' \<mapsto> Itoa (Skip opts)) else params);
         params = (if Pretty opts then params(''pretty'' \<mapsto> ''true'') else params)
     in params)"


section \<open>The retry engine\<close>

subsection \<open>Retry configuration\<close>

text \<open>
  \<open>BackoffMultiplier\<close> is a \<open>float64\<close>. Floating-point values are idealised as exact
  rationals: rounding, NaN and the infinities are not modelled. The one place where the
  idealisation would hide a branch of the program, the conversion of a \<open>float64\<close> to
  \<open>time.Duration\<close> (an \<open>int64\<close>), is modelled with its range, see \<open>toDuration\<close>.
\<close>

record RetryConfig =
  MaxRetries :: int
  InitialDelay :: int
  MaxDelay :: int
  BackoffMultiplier :: rat

definition Millisecond :: int where
  "Millisecond = 1000000"

definition Second :: int where
  "Second = 1000000000"

definition Minute :: int where
  "Minute = 60 * Second"

text \<open>The retry configuration that \<open>NewClient\<close> installs.\<close>

definition defaultRetry :: RetryConfig where
  "defaultRetry = \<lparr>MaxRetries = DefaultMaxRetries, InitialDelay = 100 * Millisecond,
     MaxDelay = 5 * Second, BackoffMultiplier = 2\<rparr>"

subsection \<open>The backoff delay\<close>

text \<open>
  \<open>time.Duration(x)\<close> for a \<open>float64\<close> \<open>x\<close>: the fraction is discarded (truncation towards
  zero). When the truncated value is not an \<open>int64\<close>, the Go specification leaves the
  result to the implementation; it is the parameter \<open>ovf\<close> here (the amd64 compiler
  gives the least \<open>int64\<close>, see \<open>amd64\<close>).
\<close>

definition towardZero :: "rat \<Rightarrow> int" where
  "towardZero x = (if x < 0 then \<lceil>x\<rceil> else \<lfloor>x\<rfloor>)"

definition toDuration :: "int \<Rightarrow> rat \<Rightarrow> int" where
  "toDuration ovf x =
     (let t = towardZero x in if - (2 ^ 63) \<le> t \<and> t < 2 ^ 63 then t else ovf)"

definition amd64 :: int where
  "amd64 = - (2 ^ 63)"

text \<open>
  The delay computed in the loop body for \<open>attempt > 0\<close>:
  \<^verbatim>\<open>delay := time.Duration(float64(InitialDelay) * math.Pow(BackoffMultiplier, float64(attempt-1)))\<close>
  \<^verbatim>\<open>if delay > MaxDelay { delay = MaxDelay }\<close>
\<close>

definition backoffDelay :: "int \<Rightarrow> RetryConfig \<Rightarrow> int \<Rightarrow> int" where
  "backoffDelay ovf cfg attempt =
     (let delay = toDuration ovf
                    (of_int (InitialDelay cfg) * BackoffMultiplier cfg ^ nat (attempt - 1))
      in if delay > MaxDelay cfg then MaxDelay cfg else delay)"

subsection \<open>One request\<close>

text \<open>
  What happens outside the program during one call of \<open>doRequest\<close>: building the request
  fails, \<open>c.httpClient.Do\<close> fails, or a response arrives with a status code and a body.
\<close>

datatype exchange =
    NewRequestFailed err
  | DoFailed err
  | Response int string

definition StatusOK :: int where
  "StatusOK = 200"

text \<open>
  \<open>doRequest\<close>; \<open>dec\<close> is \<open>json.NewDecoder(resp.Body).Decode(result)\<close>, and the value
  decoded into \<open>result\<close> is returned in place of the nil error.
\<close>

definition doRequest :: "(string \<Rightarrow> err + 'a) \<Rightarrow> exchange \<Rightarrow> err + 'a" where
  "doRequest dec x =
     (case x of
        NewRequestFailed e \<Rightarrow> Inl (Wrapped ''failed to create request'' (Some e))
      | DoFailed e \<Rightarrow> Inl (Wrapped ''http request failed'' (Some e))
      | Response status body \<Rightarrow>
          if status \<noteq> StatusOK
          then Inl (APIError status (''API returned status '' @ Itoa status @ '': '' @ body))
          else (case dec body of
                  Inl e \<Rightarrow> Inl (Wrapped ''failed to decode response'' (Some e))
                | Inr r \<Rightarrow> Inr r))"

text \<open>\<open>shouldRetry\<close>: the type assertion \<open>err.(*APIError)\<close> matches an unwrapped \<open>APIError\<close> only.\<close>

fun shouldRetry :: "err \<Rightarrow> bool" where
  "shouldRetry (APIError status msg) = (status \<ge> 500 \<or> status = 429)"
| "shouldRetry e = True"

subsection \<open>The retry loop\<close>

text \<open>
  The \<open>select\<close> of the backoff wait has two outcomes: the timer fires, or \<open>ctx.Done()\<close> is
  received first (with \<open>ctx.Err()\<close>). Which one happens is decided outside the program.
\<close>

datatype waitResult = TimerFired | CtxDone err

text \<open>
  The world one call of \<open>doRequestWithRetry\<close> runs in: the platform's out-of-range
  conversion result, the outcome of the wait before each retry (given the attempt number
  and the delay), the exchange of each attempt (given the request's query parameters and
  the attempt number), and the JSON decoder.
\<close>

record 'a env =
  ovf :: int
  waitOutcome :: "int \<Rightarrow> int \<Rightarrow> waitResult"
  exchangeAt :: "Values \<Rightarrow> int \<Rightarrow> exchange"
  decode :: "string \<Rightarrow> err + 'a"

text \<open>What the engine did, in order: a completed backoff wait, a call of \<open>doRequest\<close>.\<close>

datatype event = Slept int | Request int

definition prepend :: "event list \<Rightarrow> event list \<times> 'b \<Rightarrow> event list \<times> 'b" where
  "prepend evs r = (evs @ fst r, snd r)"

text \<open>
  The body of \<open>for attempt := 0; attempt <= c.retry.MaxRetries; attempt++\<close>, from a given
  \<open>attempt\<close> with the current \<open>lastErr\<close>; the result is the trace and the returned error
  (\<open>Inl\<close>) or the decoded result (\<open>Inr\<close>, a nil error).
\<close>

function retryLoop ::
  "RetryConfig \<Rightarrow> 'a env \<Rightarrow> Values \<Rightarrow> int \<Rightarrow> err option \<Rightarrow> event list \<times> (err + 'a)" where
  "retryLoop cfg w url attempt lastErr =
     (if attempt \<le> MaxRetries cfg then
        (case (if attempt > 0
               then (let delay = backoffDelay (ovf w) cfg attempt
                     in case waitOutcome w attempt delay of
                          CtxDone e \<Rightarrow> Inl (Wrapped ''request cancelled'' (Some e))
                        | TimerFired \<Rightarrow> Inr [Slept delay])
               else Inr []) of
           Inl e \<Rightarrow> ([], Inl e)
         | Inr waited \<Rightarrow>
             (case doRequest (decode w) (exchangeAt w url attempt) of
                Inr r \<Rightarrow> (waited @ [Request attempt], Inr r)
              | Inl e \<Rightarrow>
                  if \<not> shouldRetry e then (waited @ [Request attempt], Inl e)
                  else prepend (waited @ [Request attempt])
                         (retryLoop cfg w url (attempt + 1) (Some e))))
      else ([], Inl (Wrapped ''max retries exceeded'' lastErr)))"
  by pat_completeness auto
termination
  by (relation "measure (\<lambda>(cfg, w, url, attempt, lastErr). nat (MaxRetries cfg + 1 - attempt))")
     auto

declare retryLoop.simps [simp del]

definition doRequestWithRetry ::
  "RetryConfig \<Rightarrow> 'a env \<Rightarrow> Values \<Rightarrow> event list \<times> (err + 'a)" where
  "doRequestWithRetry cfg w url = retryLoop cfg w url 0 None"

text \<open>Reading a trace: the attempts made and the delays waited, in order.\<close>

fun attempts :: "event list \<Rightarrow> int list" where
  "attempts [] = []"
| "attempts (Request n # evs) = n # attempts evs"
| "attempts (Slept d # evs) = attempts evs"

fun delays :: "event list \<Rightarrow> int list" where
  "delays [] = []"
| "delays (Request n # evs) = delays evs"
| "delays (Slept d # evs) = d # delays evs"


subsection \<open>Observing a run of the engine\<close>

text \<open>The error that \<open>doRequest\<close> returns at an attempt (\<open>None\<close> is the nil error).\<close>

definition attemptError :: "'a env \<Rightarrow> Values \<Rightarrow> int \<Rightarrow> err option" where
  "attemptError w url n =
     (case doRequest (decode w) (exchangeAt w url n) of Inl e \<Rightarrow> Some e | Inr r \<Rightarrow> None)"

text \<open>The attempt fails with an error that \<open>shouldRetry\<close> accepts.\<close>

definition failsTransiently :: "'a env \<Rightarrow> Values \<Rightarrow> int \<Rightarrow> bool" where
  "failsTransiently w url n =
     (case attemptError w url n of Some e \<Rightarrow> shouldRetry e | None \<Rightarrow> False)"

text \<open>The wait before retry \<open>n\<close> ends with the timer, not with the cancellation.\<close>

definition timerFires :: "RetryConfig \<Rightarrow> 'a env \<Rightarrow> int \<Rightarrow> bool" where
  "timerFires cfg w n = (waitOutcome w n (backoffDelay (ovf w) cfg n) = TimerFired)"

text \<open>The trace of one loop iteration that reaches \<open>doRequest\<close>, and of a run of them.\<close>

definition iteration :: "int \<Rightarrow> RetryConfig \<Rightarrow> int \<Rightarrow> event list" where
  "iteration v cfg n = (if n > 0 then [Slept (backoffDelay v cfg n)] else []) @ [Request n]"

definition iterations :: "int \<Rightarrow> RetryConfig \<Rightarrow> int \<Rightarrow> int \<Rightarrow> event list" where
  "iterations v cfg a b = concat (map (iteration v cfg) [a..b])"

section \<open>The cache store and the single-item fetch\<close>

text \<open>
  \<open>*Provider\<close> is a pointer: \<open>None\<close> is nil. The store's \<open>sync.RWMutex\<close> is observed
  through the list of operations performed on it, oldest first; nothing in the program
  reads that list.
\<close>

datatype lockOp = RLock | RUnlock | Lock | Unlock

record 'p cacheEntry =
  provider :: "'p option"
  expiresAt :: int

record 'p cacheStore =
  enabled :: bool
  data :: "string \<rightharpoonup> 'p cacheEntry"
  mu :: "lockOp list"

record 'p Client =
  retry :: RetryConfig
  cache :: "'p cacheStore"

text \<open>
  \<open>NewClient\<close> applies the options in order to a client with the default retry
  configuration and a disabled, empty cache. \<open>WithCache\<close> enables the cache (the
  goroutine it starts, \<open>cleanupCache\<close>, only deletes expired entries).
\<close>

definition NewClient :: "('p Client \<Rightarrow> 'p Client) list \<Rightarrow> 'p Client" where
  "NewClient opts =
     fold (\<lambda>opt client. opt client) opts
       \<lparr>retry = defaultRetry, cache = \<lparr>enabled = False, data = Map.empty, mu = []\<rparr>\<rparr>"

definition WithRetry :: "RetryConfig \<Rightarrow> 'p Client \<Rightarrow> 'p Client" where
  "WithRetry config c = c\<lparr>retry := config\<rparr>"

definition WithCache :: "int \<Rightarrow> 'p Client \<Rightarrow> 'p Client" where
  "WithCache ttl c = c\<lparr>cache := (cache c)\<lparr>enabled := True\<rparr>\<rparr>"

text \<open>
  \<open>getCached\<close>, with \<open>now\<close> the value of \<open>time.Now()\<close>; \<open>time.Now().After(t)\<close> is
  \<open>now > t\<close>. The deferred \<open>RUnlock\<close> runs on every return.
\<close>

definition getCached :: "'p Client \<Rightarrow> int \<Rightarrow> string \<Rightarrow> 'p Client \<times> 'p option" where
  "getCached c now npi =
     (let c' = c\<lparr>cache := (cache c)\<lparr>mu := mu (cache c) @ [RLock, RUnlock]\<rparr>\<rparr>
      in case data (cache c) npi of
           None \<Rightarrow> (c', None)
         | Some entry \<Rightarrow> if now > expiresAt entry then (c', None) else (c', provider entry))"

text \<open>\<open>setCached\<close>: the entry expires five minutes after \<open>time.Now()\<close>.\<close>

definition setCached :: "'p Client \<Rightarrow> int \<Rightarrow> string \<Rightarrow> 'p option \<Rightarrow> 'p Client" where
  "setCached c now npi p =
     c\<lparr>cache := (cache c)
         \<lparr>data := (data (cache c))(npi \<mapsto> \<lparr>provider = p, expiresAt = now + 5 * Minute\<rparr>),
          mu := mu (cache c) @ [Lock, Unlock]\<rparr>\<rparr>"

text \<open>
  \<open>SearchProviders\<close>: the request is identified by its query parameters; the decoded
  response is the list \<open>response.Results\<close>. The trace of the engine is kept.
\<close>

definition SearchProviders ::
  "'p Client \<Rightarrow> 'p list env \<Rightarrow> SearchOptions \<Rightarrow> event list \<times> (err + 'p list)" where
  "SearchProviders c w opts =
     (let params = buildQueryParams opts;
          r = doRequestWithRetry (retry c) w params
      in case snd r of
           Inl e \<Rightarrow> (fst r, Inl (Wrapped ''search providers failed'' (Some e)))
         | Inr response \<Rightarrow> (fst r, Inr response))"

text \<open>
  The world of one call of \<open>GetProviderByNPI\<close>: the clock at the cache lookup, the clock
  at the cache store, and the world of the engine.
\<close>

record 'p call =
  lookupTime :: int
  storeTime :: int
  world :: "'p list env"

definition GetProviderByNPI ::
  "'p Client \<Rightarrow> 'p call \<Rightarrow> string \<Rightarrow> 'p Client \<times> event list \<times> (err + 'p)" where
  "GetProviderByNPI c k npi =
     (if npi = [] then (c, [], Inl (Plain ''npi cannot be empty''))
      else
        (case (if enabled (cache c) then getCached c (lookupTime k) npi else (c, None)) of
           (c1, Some p) \<Rightarrow> (c1, [], Inr p)
         | (c1, None) \<Rightarrow>
             (let opts = \<lparr>Number = npi, EnumerationType = [], FirstName = [], LastName = [],
                          OrganizationName = [], TaxonomyDescription = [], AddressPurpose = [],
                          City = [], State = [], PostalCode = [], CountryCode = [],
                          Limit = 1, Skip = 0, Pretty = False\<rparr>;
                  r = SearchProviders c1 (world k) opts
              in case snd r of
                   Inl e \<Rightarrow>
                     (c1, fst r, Inl (Wrapped (''failed to get provider by NPI '' @ npi) (Some e)))
                 | Inr providers \<Rightarrow>
                     (case providers of
                        [] \<Rightarrow> (c1, fst r, Inl (Plain (''no provider found with NPI '' @ npi)))
                      | p # rest \<Rightarrow>
                          ((if enabled (cache c1) then setCached c1 (storeTime k) npi (Some p)
                            else c1),
                           fst r, Inr p)))))"

text \<open>A sequence of fetches on one client, each in its own world.\<close>

fun fetchAll :: "'p Client \<Rightarrow> ('p call \<times> string) list \<Rightarrow> 'p Client" where
  "fetchAll c [] = c"
| "fetchAll c ((k, npi) # rest) = fetchAll (fst (GetProviderByNPI c k npi)) rest"

section \<open>The batch fetch\<close>

text \<open>\<open>err.Error()\<close>, as \<open>fmt\<close> renders the verbs \<open>%v\<close> and \<open>%w\<close>.\<close>

fun errorString :: "err \<Rightarrow> string" where
  "errorString (APIError status msg) = msg"
| "errorString (Wrapped msg None) = msg @ '': %!w(<nil>)''"
| "errorString (Wrapped msg (Some e)) = msg @ '': '' @ errorString e"
| "errorString (Plain msg) = msg"

text \<open>
  \<open>GetProvidersByNPIs\<close> starts one goroutine per element of \<open>npis\<close>. Goroutine \<open>i\<close> is
  \<open>Spawned\<close> until its send on \<open>semaphore\<close> (a channel of capacity 5) goes through, then
  \<open>Fetching\<close> while it runs \<open>c.GetProviderByNPI\<close>, then \<open>Finished\<close>: it has recorded the
  outcome (under \<open>mu\<close> in \<open>results\<close>, or as a send on \<open>errChan\<close>, whose capacity
  \<open>len(npis)\<close> never blocks it), and the deferred calls have received from \<open>semaphore\<close>
  and called \<open>wg.Done()\<close>.

  The scheduler and the outcome of each fetch are outside the program: a schedule is a
  list of moves, \<open>Acquire i\<close> (the send on \<open>semaphore\<close> of goroutine \<open>i\<close> goes through) and
  \<open>Return i r\<close> (its \<open>GetProviderByNPI\<close> returns \<open>r\<close> and the goroutine runs to its end).
  A move that the program cannot make in a state has no successor state.
\<close>

datatype phase = Spawned | Fetching | Finished

record 'p batch =
  phases :: "phase list"
  results :: "string \<rightharpoonup> 'p"
  errChan :: "err list"

datatype 'p move = Acquire nat | Return nat "err + 'p"

definition semaphoreCap :: nat where
  "semaphoreCap = 5"

definition inFlight :: "'p batch \<Rightarrow> nat" where
  "inFlight b = length (filter (\<lambda>ph. ph = Fetching) (phases b))"

definition startBatch :: "string list \<Rightarrow> 'p batch" where
  "startBatch npis =
     \<lparr>phases = replicate (length npis) Spawned, results = Map.empty, errChan = []\<rparr>"

fun step :: "string list \<Rightarrow> 'p move \<Rightarrow> 'p batch \<Rightarrow> 'p batch option" where
  "step npis (Acquire i) b =
     (if i < length (phases b) \<and> phases b ! i = Spawned \<and> inFlight b < semaphoreCap
      then Some (b\<lparr>phases := (phases b)[i := Fetching]\<rparr>)
      else None)"
| "step npis (Return i r) b =
     (if i < length npis \<and> i < length (phases b) \<and> phases b ! i = Fetching
      then Some
        (case r of
           Inl e \<Rightarrow>
             b\<lparr>phases := (phases b)[i := Finished],
               errChan := errChan b @ [Wrapped (''failed to fetch NPI '' @ npis ! i) (Some e)]\<rparr>
         | Inr p \<Rightarrow>
             b\<lparr>phases := (phases b)[i := Finished],
               results := (results b)(npis ! i \<mapsto> p)\<rparr>)
      else None)"

fun run :: "string list \<Rightarrow> 'p move list \<Rightarrow> 'p batch \<Rightarrow> 'p batch option" where
  "run npis [] b = Some b"
| "run npis (m # ms) b = (case step npis m b of None \<Rightarrow> None | Some b' \<Rightarrow> run npis ms b')"

text \<open>
  \<open>GetProvidersByNPIs\<close> under a schedule. The result is \<open>None\<close> when the schedule is not
  a complete run (a move is impossible, or \<open>wg.Wait()\<close> would still block at its end);
  otherwise it is the returned pair: the map (\<open>None\<close> is the nil map) and the error
  (\<open>None\<close> is the nil error).
\<close>

definition GetProvidersByNPIs ::
  "string list \<Rightarrow> 'p move list \<Rightarrow> ((string \<rightharpoonup> 'p) option \<times> err option) option" where
  "GetProvidersByNPIs npis sched =
     (if length npis = 0 then Some (None, Some (Plain ''npi list cannot be empty''))
      else
        (case run npis sched (startBatch npis) of
           None \<Rightarrow> None
         | Some b \<Rightarrow>
             if \<not> list_all (\<lambda>ph. ph = Finished) (phases b) then None
             else
               (let errs = errChan b
                in if length errs > 0
                   then Some (Some (results b),
                          Some (Plain (''batch fetch completed with '' @ Itoa (int (length errs))
                                  @ '' errors: '' @ errorString (errs ! 0))))
                   else Some (Some (results b), None))))"

subsection \<open>Observing a schedule\<close>

text \<open>The errors sent on \<open>errChan\<close>, the successful fetches and the goroutines that ended.\<close>

fun failuresOf :: "string list \<Rightarrow> 'p move list \<Rightarrow> err list" where
  "failuresOf npis [] = []"
| "failuresOf npis (Acquire i # ms) = failuresOf npis ms"
| "failuresOf npis (Return i (Inl e) # ms) =
     Wrapped (''failed to fetch NPI '' @ npis ! i) (Some e) # failuresOf npis ms"
| "failuresOf npis (Return i (Inr p) # ms) = failuresOf npis ms"

fun successesOf :: "'p move list \<Rightarrow> (nat \<times> 'p) list" where
  "successesOf [] = []"
| "successesOf (Acquire i # ms) = successesOf ms"
| "successesOf (Return i (Inl e) # ms) = successesOf ms"
| "successesOf (Return i (Inr p) # ms) = (i, p) # successesOf ms"

fun returned :: "'p move list \<Rightarrow> nat list" where
  "returned [] = []"
| "returned (Acquire i # ms) = returned ms"
| "returned (Return i r # ms) = i # returned ms"

text \<open>The pairs of a key and the provider fetched for it.\<close>

definition fetched :: "string list \<Rightarrow> 'p move list \<Rightarrow> (string \<times> 'p) set" where
  "fetched npis sched = {(npis ! i, p) |i p. (i, p) \<in> set (successesOf sched)}"

text \<open>The error that \<open>GetProvidersByNPIs\<close> returns for the errors received from \<open>errChan\<close>.\<close>

definition batchError :: "err list \<Rightarrow> err option" where
  "batchError errs =
     (if errs = [] then None
      else Some (Plain (''batch fetch completed with '' @ Itoa (int (length errs))
                  @ '' errors: '' @ errorString (hd errs))))"

text \<open>
  The work a batch still has to do (two moves for a goroutine not yet admitted, one for
  a goroutine that is fetching), and the schedules whose fetches return what a given
  function of the goroutine's index says.
\<close>

fun remaining :: "phase \<Rightarrow> nat" where
  "remaining Spawned = 2"
| "remaining Fetching = 1"
| "remaining Finished = 0"

definition workLeft :: "'p batch \<Rightarrow> nat" where
  "workLeft b = sum_list (map remaining (phases b))"

definition returnsAs :: "(nat \<Rightarrow> err + 'p) \<Rightarrow> 'p move list \<Rightarrow> bool" where
  "returnsAs outcome ms =
     list_all (\<lambda>mv. case mv of Acquire i \<Rightarrow> True | Return i r \<Rightarrow> r = outcome i) ms"

text \<open>The schedule that runs the fetches one after the other, with given outcomes.\<close>

definition oneByOne :: "(nat \<Rightarrow> err + 'p) \<Rightarrow> nat \<Rightarrow> 'p move list" where
  "oneByOne outcome n = concat (map (\<lambda>i. [Acquire i, Return i (outcome i)]) [0..<n])"

section \<open>Example inputs\<close>

definition noOptions :: SearchOptions where
  "noOptions = \<lparr>Number = [], EnumerationType = [], FirstName = [], LastName = [],
     OrganizationName = [], TaxonomyDescription = [], AddressPurpose = [], City = [],
     State = [], PostalCode = [], CountryCode = [], Limit = 0, Skip = 0, Pretty = False\<rparr>"

text \<open>A server that answers every attempt with the given status and an empty body.\<close>

definition always :: "int \<Rightarrow> int \<Rightarrow> nat env" where
  "always v status = \<lparr>ovf = v, waitOutcome = (\<lambda>n d. TimerFired),
     exchangeAt = (\<lambda>url n. Response status []), decode = (\<lambda>body. Inr 0)\<rparr>"

text \<open>A server that answers 503 first and 404 from the first retry on.\<close>

definition unavailableThenNotFound :: "nat env" where
  "unavailableThenNotFound = \<lparr>ovf = amd64, waitOutcome = (\<lambda>n d. TimerFired),
     exchangeAt = (\<lambda>url n. Response (if n = 0 then 503 else 404) []),
     decode = (\<lambda>body. Inr 0)\<rparr>"

text \<open>A server that always answers 503, and a caller that cancels during the wait before retry \<open>k\<close>.\<close>

definition cancelledAt :: "int \<Rightarrow> nat env" where
  "cancelledAt k = \<lparr>ovf = amd64,
     waitOutcome = (\<lambda>n d. if n = k then CtxDone (Plain ''context canceled'') else TimerFired),
     exchangeAt = (\<lambda>url n. Response 503 []), decode = (\<lambda>body. Inr 0)\<rparr>"

text \<open>A call whose request is answered at once with one provider, the number 7.\<close>

definition foundCall :: "nat call" where
  "foundCall = \<lparr>lookupTime = 0, storeTime = 1,
     world = \<lparr>ovf = amd64, waitOutcome = (\<lambda>n d. TimerFired),
       exchangeAt = (\<lambda>url n. Response 200 ''{}''), decode = (\<lambda>body. Inr [7])\<rparr>\<rparr>"

text \<open>A batch of three keys whose second key is not found, and a batch of six keys.\<close>

definition threeKeys :: "string list" where
  "threeKeys = [''1234567890'', ''9999999999'', ''1111111111'']"

definition notFoundCall :: "nat call" where
  "notFoundCall = \<lparr>lookupTime = 0, storeTime = 1,
     world = \<lparr>ovf = amd64, waitOutcome = (\<lambda>n d. TimerFired),
       exchangeAt = (\<lambda>url n. Response 404 []), decode = (\<lambda>body. Inr [])\<rparr>\<rparr>"

definition notFound :: err where
  "notFound = Wrapped ''failed to get provider by NPI 9999999999''
     (Some (Wrapped ''search providers failed''
        (Some (APIError 404 ''API returned status 404: ''))))"

definition threeKeysSchedule :: "nat move list" where
  "threeKeysSchedule =
     [Acquire 0, Acquire 1, Acquire 2, Return 2 (Inr 3), Return 1 (Inl notFound),
      Return 0 (Inr 1)]"

definition twoFailuresSchedule :: "nat move list" where
  "twoFailuresSchedule =
     [Acquire 0, Acquire 1, Acquire 2, Return 1 (Inl notFound), Return 2 (Inr 3),
      Return 0 (Inl (Plain ''context canceled''))]"

definition sixKeys :: "string list" where
  "sixKeys = [''1000000001'', ''1000000002'', ''1000000003'', ''1000000004'',
     ''1000000005'', ''1000000006'']"

definition fiveAcquired :: "nat batch" where
  "fiveAcquired = \<lparr>phases = [Fetching, Fetching, Fetching, Fetching, Fetching, Spawned],
     results = Map.empty, errChan = []\<rparr>"

section \<open>Properties of the query parameters\<close>

lemma Itoa_10: "Itoa 10 = ''10''"
  by (simp add: Itoa_def natDigits.simps digitChar_def)

lemma Itoa_200: "Itoa 200 = ''200''"
  by (simp add: Itoa_def natDigits.simps digitChar_def)

lemma Itoa_minus_5: "Itoa (- 5) = ''-5''"
  by (simp add: Itoa_def natDigits.simps digitChar_def)

lemma limit_param:
  "buildQueryParams opts ''limit'' =
     Some (Itoa (if Limit opts = 0 then 10 else if Limit opts > 200 then 200 else Limit opts))"
  by (simp add: buildQueryParams_def Let_def setNonEmpty_def DefaultLimit_def MaxLimit_def)

text \<open>
  Claim C10. For every \<open>SearchOptions\<close> value, \<open>buildQueryParams\<close> sets the \<open>limit\<close> query
  parameter to \<open>10\<close> when \<open>Limit\<close> is 0, to \<open>200\<close> when \<open>Limit\<close> exceeds 200, and to
  \<open>Limit\<close> itself in every other case; a negative \<open>Limit\<close> is passed through unchanged
  (the function has no error result, and nothing clamps to 1..200).
\<close>

theorem buildQueryParams_limit:
  "(Limit opts = 0 \<longrightarrow> buildQueryParams opts ''limit'' = Some ''10'')
   \<and> (Limit opts > 200 \<longrightarrow> buildQueryParams opts ''limit'' = Some ''200'')
   \<and> (Limit opts \<noteq> 0 \<and> Limit opts \<le> 200 \<longrightarrow>
        buildQueryParams opts ''limit'' = Some (Itoa (Limit opts)))
   \<and> (Limit opts < 0 \<longrightarrow> buildQueryParams opts ''limit'' = Some (Itoa (Limit opts)))"
  by (simp add: limit_param Itoa_10 Itoa_200)

theorem buildQueryParams_limit_witness:
  "Limit (noOptions\<lparr>Limit := 0\<rparr>) = 0
   \<and> buildQueryParams (noOptions\<lparr>Limit := 0\<rparr>) ''limit'' = Some ''10''
   \<and> Limit (noOptions\<lparr>Limit := 500\<rparr>) > 200
   \<and> buildQueryParams (noOptions\<lparr>Limit := 500\<rparr>) ''limit'' = Some ''200''
   \<and> Limit (noOptions\<lparr>Limit := - 5\<rparr>) < 0
   \<and> buildQueryParams (noOptions\<lparr>Limit := - 5\<rparr>) ''limit'' = Some ''-5''"
  using buildQueryParams_limit [of "noOptions\<lparr>Limit := 0\<rparr>"]
        buildQueryParams_limit [of "noOptions\<lparr>Limit := 500\<rparr>"]
        buildQueryParams_limit [of "noOptions\<lparr>Limit := - 5\<rparr>"]
  by (simp add: Itoa_minus_5)

section \<open>Properties of the retry engine\<close>

lemma attempts_append: "attempts (xs @ ys) = attempts xs @ attempts ys"
  by (induction xs rule: attempts.induct) auto

lemma delays_append: "delays (xs @ ys) = delays xs @ delays ys"
  by (induction xs rule: delays.induct) auto

lemma prepend_prepend: "prepend xs (prepend ys r) = prepend (xs @ ys) r"
  by (simp add: prepend_def)

text \<open>An iteration whose attempt fails with a retryable error goes on to the next one.\<close>

lemma retryLoop_retry:
  assumes "a \<le> MaxRetries cfg" "failsTransiently w url a" "0 < a \<longrightarrow> timerFires cfg w a"
  shows "retryLoop cfg w url a lastErr =
           prepend (iteration (ovf w) cfg a) (retryLoop cfg w url (a + 1) (attemptError w url a))"
  using assms
  by (subst retryLoop.simps)
     (auto simp: failsTransiently_def attemptError_def timerFires_def iteration_def Let_def
           split: sum.splits option.splits waitResult.splits)

lemma retryLoop_prefix:
  assumes "b \<le> MaxRetries cfg"
    and "\<forall>n. a \<le> n \<and> n \<le> b \<longrightarrow> failsTransiently w url n"
    and "\<forall>n. a \<le> n \<and> n \<le> b \<and> 0 < n \<longrightarrow> timerFires cfg w n"
    and "a \<le> b"
  shows "retryLoop cfg w url a lastErr =
           prepend (iterations (ovf w) cfg a b)
             (retryLoop cfg w url (b + 1) (attemptError w url b))"
  using assms
proof (induction "nat (b - a)" arbitrary: a lastErr)
  case 0
  then have "a = b" by simp
  with 0 show ?case
    by (simp add: retryLoop_retry iterations_def)
next
  case (Suc k)
  then have lt: "a < b" by linarith
  have first: "retryLoop cfg w url a lastErr =
      prepend (iteration (ovf w) cfg a) (retryLoop cfg w url (a + 1) (attemptError w url a))"
    using Suc.prems lt by (intro retryLoop_retry) auto
  have rest: "retryLoop cfg w url (a + 1) (attemptError w url a) =
      prepend (iterations (ovf w) cfg (a + 1) b)
        (retryLoop cfg w url (b + 1) (attemptError w url b))"
    using Suc.prems lt Suc.hyps(2) by (intro Suc.hyps(1)) auto
  have "[a..b] = a # [a + 1..b]"
    using lt by (simp add: upto_rec1)
  then have "iterations (ovf w) cfg a b =
      iteration (ovf w) cfg a @ iterations (ovf w) cfg (a + 1) b"
    by (simp add: iterations_def)
  with first rest show ?case
    by (simp add: prepend_prepend)
qed

lemma retryLoop_exhausted:
  "MaxRetries cfg < a \<Longrightarrow>
     retryLoop cfg w url a lastErr = ([], Inl (Wrapped ''max retries exceeded'' lastErr))"
  by (subst retryLoop.simps) simp

lemma attempts_iteration: "attempts (iteration v cfg n) = [n]"
  by (simp add: iteration_def)

lemma attempts_iterations: "attempts (iterations v cfg a b) = [a..b]"
proof (induction "nat (b + 1 - a)" arbitrary: a)
  case 0
  then show ?case by (simp add: iterations_def)
next
  case (Suc k)
  then have "a \<le> b" by linarith
  then have "[a..b] = a # [a + 1..b]"
    by (simp add: upto_rec1)
  moreover have "attempts (iterations v cfg (a + 1) b) = [a + 1..b]"
    using Suc by (intro Suc.hyps(1)) auto
  ultimately show ?case
    by (simp add: iterations_def attempts_append attempts_iteration)
qed

lemma always_fails_transiently:
  "status \<ge> 500 \<or> status = 429 \<Longrightarrow> failsTransiently (always v status) url n"
  by (auto simp: failsTransiently_def attemptError_def doRequest_def always_def StatusOK_def)

lemma always_timerFires: "timerFires cfg (always v status) n"
  by (simp add: timerFires_def always_def)

text \<open>The whole run when every attempt fails with a retryable error and every wait ends.\<close>

lemma doRequestWithRetry_all_transient:
  assumes "0 \<le> MaxRetries cfg"
    and "\<forall>n. 0 \<le> n \<and> n \<le> MaxRetries cfg \<longrightarrow> failsTransiently w url n"
    and "\<forall>n. 1 \<le> n \<and> n \<le> MaxRetries cfg \<longrightarrow> timerFires cfg w n"
  shows "doRequestWithRetry cfg w url =
      (iterations (ovf w) cfg 0 (MaxRetries cfg),
       Inl (Wrapped ''max retries exceeded'' (attemptError w url (MaxRetries cfg))))"
  unfolding doRequestWithRetry_def using assms
  by (subst retryLoop_prefix [where b = "MaxRetries cfg"])
     (auto simp: retryLoop_exhausted prepend_def)

text \<open>
  Claim C1. With \<open>MaxRetries = R \<ge> 0\<close>, when every attempt fails with a retryable error
  (and no backoff wait is cut short by the cancellation signal, which is the subject of
  claim C5), \<open>doRequestWithRetry\<close> makes exactly the attempts \<open>0, ..., R\<close>, that is
  \<open>R + 1\<close> of them, and returns the error \<open>max retries exceeded\<close> wrapping the error of the
  last attempt. With \<open>MaxRetries = 0\<close> it makes exactly one attempt and waits for no retry,
  whatever the attempt returns and however its error is classified.
\<close>

theorem retries_exhausted:
  "(0 \<le> MaxRetries cfg
      \<and> (\<forall>n. 0 \<le> n \<and> n \<le> MaxRetries cfg \<longrightarrow> failsTransiently w url n)
      \<and> (\<forall>n. 1 \<le> n \<and> n \<le> MaxRetries cfg \<longrightarrow> timerFires cfg w n)
    \<longrightarrow> attempts (fst (doRequestWithRetry cfg w url)) = [0..MaxRetries cfg]
      \<and> int (length (attempts (fst (doRequestWithRetry cfg w url)))) = MaxRetries cfg + 1
      \<and> attemptError w url (MaxRetries cfg) \<noteq> None
      \<and> snd (doRequestWithRetry cfg w url) =
          Inl (Wrapped ''max retries exceeded'' (attemptError w url (MaxRetries cfg))))
   \<and> (MaxRetries cfg = 0 \<longrightarrow> fst (doRequestWithRetry cfg w url) = [Request 0])"
proof (intro conjI impI)
  assume h: "0 \<le> MaxRetries cfg
      \<and> (\<forall>n. 0 \<le> n \<and> n \<le> MaxRetries cfg \<longrightarrow> failsTransiently w url n)
      \<and> (\<forall>n. 1 \<le> n \<and> n \<le> MaxRetries cfg \<longrightarrow> timerFires cfg w n)"
  have run: "doRequestWithRetry cfg w url =
      (iterations (ovf w) cfg 0 (MaxRetries cfg),
       Inl (Wrapped ''max retries exceeded'' (attemptError w url (MaxRetries cfg))))"
    using h by (intro doRequestWithRetry_all_transient) auto
  show "attempts (fst (doRequestWithRetry cfg w url)) = [0..MaxRetries cfg]"
    by (simp add: run attempts_iterations)
  then show "int (length (attempts (fst (doRequestWithRetry cfg w url)))) = MaxRetries cfg + 1"
    using h by simp
  show "attemptError w url (MaxRetries cfg) \<noteq> None"
    using h by (auto simp: failsTransiently_def split: option.splits)
  show "snd (doRequestWithRetry cfg w url) =
          Inl (Wrapped ''max retries exceeded'' (attemptError w url (MaxRetries cfg)))"
    by (simp add: run)
next
  assume z: "MaxRetries cfg = 0"
  show "fst (doRequestWithRetry cfg w url) = [Request 0]"
    unfolding doRequestWithRetry_def
    by (subst retryLoop.simps, subst retryLoop.simps)
       (simp add: z prepend_def split: sum.splits)
qed

theorem retries_exhausted_witness:
  "0 \<le> MaxRetries defaultRetry
   \<and> failsTransiently (always amd64 503) Map.empty 3
   \<and> timerFires defaultRetry (always amd64 503) 3
   \<and> attempts (fst (doRequestWithRetry defaultRetry (always amd64 503) Map.empty)) = [0, 1, 2, 3]
   \<and> snd (doRequestWithRetry defaultRetry (always amd64 503) Map.empty) =
       Inl (Wrapped ''max retries exceeded''
              (Some (APIError 503 ''API returned status 503: '')))
   \<and> MaxRetries (defaultRetry\<lparr>MaxRetries := 0\<rparr>) = 0
   \<and> fst (doRequestWithRetry (defaultRetry\<lparr>MaxRetries := 0\<rparr>) (always amd64 404) Map.empty) =
       [Request 0]"
proof -
  have m: "MaxRetries defaultRetry = 3"
    by (simp add: defaultRetry_def DefaultMaxRetries_def)
  have u: "[0..3::int] = [0, 1, 2, 3]"
    by (simp add: upto_rec1)
  have e: "attemptError (always amd64 503) Map.empty 3 =
      Some (APIError 503 ''API returned status 503: '')"
    by (simp add: attemptError_def doRequest_def always_def StatusOK_def Itoa_def
          natDigits.simps digitChar_def)
  show ?thesis
    using retries_exhausted [of defaultRetry "always amd64 503" Map.empty]
      retries_exhausted [of "defaultRetry\<lparr>MaxRetries := 0\<rparr>" "always amd64 404" Map.empty]
    by (simp add: m u e always_fails_transiently always_timerFires)
qed


subsection \<open>Classification of failures\<close>

lemma doRequest_not_ok:
  "status \<noteq> 200 \<Longrightarrow> doRequest dec (Response status body) =
     Inl (APIError status (''API returned status '' @ Itoa status @ '': '' @ body))"
  by (simp add: doRequest_def StatusOK_def)

text \<open>An iteration whose attempt fails with an error that \<open>shouldRetry\<close> rejects ends the loop.\<close>

lemma retryLoop_fatal:
  assumes "a \<le> MaxRetries cfg" "0 < a \<longrightarrow> timerFires cfg w a"
    and "doRequest (decode w) (exchangeAt w url a) = Inl e" "\<not> shouldRetry e"
  shows "retryLoop cfg w url a lastErr = (iteration (ovf w) cfg a, Inl e)"
  using assms
  by (subst retryLoop.simps)
     (auto simp: timerFires_def iteration_def Let_def split: waitResult.splits)

lemma Itoa_404: "Itoa 404 = ''404''"
  by (simp add: Itoa_def natDigits.simps digitChar_def)

lemma Itoa_204: "Itoa 204 = ''204''"
  by (simp add: Itoa_def natDigits.simps digitChar_def)

text \<open>
  Claim C3. A response whose status is below 500, is not 429 and is not a 2xx status
  makes \<open>doRequest\<close> return an \<open>APIError\<close> that \<open>shouldRetry\<close> rejects: when it answers the
  first attempt, \<open>doRequestWithRetry\<close> returns that error after exactly one request, with
  no wait and no further attempt, whatever \<open>MaxRetries \<ge> 0\<close> is; when it answers a later
  attempt, the loop ends with that attempt. An \<open>APIError\<close> is retryable exactly when its
  status is at least 500 or is 429.
\<close>

theorem client_error_is_fatal:
  "(shouldRetry (APIError status msg) \<longleftrightarrow> status \<ge> 500 \<or> status = 429)
   \<and> (0 \<le> MaxRetries cfg \<and> exchangeAt w url 0 = Response status body
        \<and> status < 500 \<and> status \<noteq> 429 \<and> \<not> (200 \<le> status \<and> status < 300)
      \<longrightarrow> doRequestWithRetry cfg w url =
           ([Request 0],
            Inl (APIError status (''API returned status '' @ Itoa status @ '': '' @ body))))
   \<and> (0 < a \<and> a \<le> MaxRetries cfg \<and> timerFires cfg w a
        \<and> exchangeAt w url a = Response status body
        \<and> status < 500 \<and> status \<noteq> 429 \<and> \<not> (200 \<le> status \<and> status < 300)
      \<longrightarrow> retryLoop cfg w url a lastErr =
           ([Slept (backoffDelay (ovf w) cfg a), Request a],
            Inl (APIError status (''API returned status '' @ Itoa status @ '': '' @ body))))"
proof (intro conjI impI)
  show "shouldRetry (APIError status msg) \<longleftrightarrow> status \<ge> 500 \<or> status = 429"
    by simp
next
  assume h: "0 \<le> MaxRetries cfg \<and> exchangeAt w url 0 = Response status body
        \<and> status < 500 \<and> status \<noteq> 429 \<and> \<not> (200 \<le> status \<and> status < 300)"
  then have "status \<noteq> 200" by auto
  then have "doRequest (decode w) (exchangeAt w url 0) =
      Inl (APIError status (''API returned status '' @ Itoa status @ '': '' @ body))"
    using h by (simp add: doRequest_not_ok)
  then show "doRequestWithRetry cfg w url =
           ([Request 0],
            Inl (APIError status (''API returned status '' @ Itoa status @ '': '' @ body)))"
    unfolding doRequestWithRetry_def using h
    by (subst retryLoop_fatal) (auto simp: iteration_def)
next
  assume h: "0 < a \<and> a \<le> MaxRetries cfg \<and> timerFires cfg w a
        \<and> exchangeAt w url a = Response status body
        \<and> status < 500 \<and> status \<noteq> 429 \<and> \<not> (200 \<le> status \<and> status < 300)"
  then have "status \<noteq> 200" by auto
  then have "doRequest (decode w) (exchangeAt w url a) =
      Inl (APIError status (''API returned status '' @ Itoa status @ '': '' @ body))"
    using h by (simp add: doRequest_not_ok)
  then show "retryLoop cfg w url a lastErr =
           ([Slept (backoffDelay (ovf w) cfg a), Request a],
            Inl (APIError status (''API returned status '' @ Itoa status @ '': '' @ body)))"
    using h by (subst retryLoop_fatal) (auto simp: iteration_def)
qed

theorem client_error_is_fatal_witness:
  "0 \<le> MaxRetries defaultRetry
   \<and> exchangeAt (always amd64 404) Map.empty 0 = Response 404 []
   \<and> doRequestWithRetry defaultRetry (always amd64 404) Map.empty =
       ([Request 0], Inl (APIError 404 ''API returned status 404: ''))
   \<and> (1::int) \<le> MaxRetries defaultRetry
   \<and> timerFires defaultRetry unavailableThenNotFound 1
   \<and> exchangeAt unavailableThenNotFound Map.empty 1 = Response 404 []
   \<and> retryLoop defaultRetry unavailableThenNotFound Map.empty 1 None =
       ([Slept (100 * Millisecond), Request 1], Inl (APIError 404 ''API returned status 404: ''))"
proof -
  have d: "backoffDelay amd64 defaultRetry 1 = 100 * Millisecond"
    by (simp add: backoffDelay_def defaultRetry_def toDuration_def towardZero_def
          Millisecond_def Second_def Let_def)
  have m: "MaxRetries defaultRetry = 3"
    by (simp add: defaultRetry_def DefaultMaxRetries_def)
  show ?thesis
    using client_error_is_fatal [where status = 404 and cfg = defaultRetry
        and w = "always amd64 404" and url = Map.empty and body = "[]"
        and a = 1 and lastErr = None]
      client_error_is_fatal [where status = 404 and cfg = defaultRetry
        and w = unavailableThenNotFound and url = Map.empty and body = "[]"
        and a = 1 and lastErr = None]
    by (simp add: m d Itoa_404 always_def unavailableThenNotFound_def timerFires_def)
qed

subsection \<open>Cancellation\<close>

lemma retryLoop_cancelled:
  assumes "0 < a" "a \<le> MaxRetries cfg"
    and "waitOutcome w a (backoffDelay (ovf w) cfg a) = CtxDone ce"
  shows "retryLoop cfg w url a lastErr = ([], Inl (Wrapped ''request cancelled'' (Some ce)))"
  using assms by (subst retryLoop.simps) (simp add: Let_def)

text \<open>
  Claim C5. When the cancellation signal wins the backoff wait before retry \<open>a\<close>, the
  loop returns at once the error \<open>request cancelled\<close> wrapping \<open>ctx.Err()\<close>: from that
  wait on, the trace is empty, so no further request is made. In a run whose earlier
  attempts failed, the attempts made are exactly \<open>0, ..., a - 1\<close>, and the returned
  error is not the \<open>max retries exceeded\<close> error, whatever that one would wrap.
\<close>

theorem cancelled_during_wait:
  "(0 < a \<and> a \<le> MaxRetries cfg \<and> waitOutcome w a (backoffDelay (ovf w) cfg a) = CtxDone ce
      \<longrightarrow> retryLoop cfg w url a lastErr = ([], Inl (Wrapped ''request cancelled'' (Some ce))))
   \<and> (0 < a \<and> a \<le> MaxRetries cfg
        \<and> (\<forall>n. 0 \<le> n \<and> n < a \<longrightarrow> failsTransiently w url n)
        \<and> (\<forall>n. 1 \<le> n \<and> n < a \<longrightarrow> timerFires cfg w n)
        \<and> waitOutcome w a (backoffDelay (ovf w) cfg a) = CtxDone ce
      \<longrightarrow> attempts (fst (doRequestWithRetry cfg w url)) = [0..a - 1]
        \<and> snd (doRequestWithRetry cfg w url) = Inl (Wrapped ''request cancelled'' (Some ce))
        \<and> (\<forall>e. snd (doRequestWithRetry cfg w url) \<noteq> Inl (Wrapped ''max retries exceeded'' e)))"
proof (intro conjI impI)
  assume "0 < a \<and> a \<le> MaxRetries cfg
      \<and> waitOutcome w a (backoffDelay (ovf w) cfg a) = CtxDone ce"
  then show "retryLoop cfg w url a lastErr =
      ([], Inl (Wrapped ''request cancelled'' (Some ce)))"
    by (simp add: retryLoop_cancelled)
next
  assume h: "0 < a \<and> a \<le> MaxRetries cfg
        \<and> (\<forall>n. 0 \<le> n \<and> n < a \<longrightarrow> failsTransiently w url n)
        \<and> (\<forall>n. 1 \<le> n \<and> n < a \<longrightarrow> timerFires cfg w n)
        \<and> waitOutcome w a (backoffDelay (ovf w) cfg a) = CtxDone ce"
  have "retryLoop cfg w url 0 None =
      prepend (iterations (ovf w) cfg 0 (a - 1))
        (retryLoop cfg w url (a - 1 + 1) (attemptError w url (a - 1)))"
    using h by (intro retryLoop_prefix) auto
  then have run: "doRequestWithRetry cfg w url =
      (iterations (ovf w) cfg 0 (a - 1), Inl (Wrapped ''request cancelled'' (Some ce)))"
    using h by (simp add: doRequestWithRetry_def retryLoop_cancelled prepend_def)
  show "attempts (fst (doRequestWithRetry cfg w url)) = [0..a - 1]"
    by (simp add: run attempts_iterations)
  show "snd (doRequestWithRetry cfg w url) = Inl (Wrapped ''request cancelled'' (Some ce))"
    by (simp add: run)
  show "\<forall>e. snd (doRequestWithRetry cfg w url) \<noteq> Inl (Wrapped ''max retries exceeded'' e)"
    by (simp add: run)
qed

lemma cancelledAt_fails_transiently: "failsTransiently (cancelledAt k) url n"
  by (simp add: failsTransiently_def attemptError_def doRequest_def cancelledAt_def StatusOK_def)

theorem cancelled_during_wait_witness:
  "(2::int) \<le> MaxRetries defaultRetry
   \<and> failsTransiently (cancelledAt 2) Map.empty 1
   \<and> timerFires defaultRetry (cancelledAt 2) 1
   \<and> waitOutcome (cancelledAt 2) 2 (backoffDelay (ovf (cancelledAt 2)) defaultRetry 2) =
       CtxDone (Plain ''context canceled'')
   \<and> retryLoop defaultRetry (cancelledAt 2) Map.empty 2 None =
       ([], Inl (Wrapped ''request cancelled'' (Some (Plain ''context canceled''))))
   \<and> attempts (fst (doRequestWithRetry defaultRetry (cancelledAt 2) Map.empty)) = [0, 1]
   \<and> snd (doRequestWithRetry defaultRetry (cancelledAt 2) Map.empty) =
       Inl (Wrapped ''request cancelled'' (Some (Plain ''context canceled'')))"
proof -
  have m: "MaxRetries defaultRetry = 3"
    by (simp add: defaultRetry_def DefaultMaxRetries_def)
  have u: "[0..1::int] = [0, 1]"
    by (simp add: upto_rec1)
  have t: "\<forall>n. 1 \<le> n \<and> n < 2 \<longrightarrow> timerFires defaultRetry (cancelledAt 2) n"
    by (simp add: timerFires_def cancelledAt_def)
  have c: "waitOutcome (cancelledAt 2) 2 (backoffDelay (ovf (cancelledAt 2)) defaultRetry 2) =
      CtxDone (Plain ''context canceled'')"
    by (simp add: cancelledAt_def)
  show ?thesis
    using cancelled_during_wait [where a = 2 and cfg = defaultRetry and w = "cancelledAt 2"
        and url = Map.empty and ce = "Plain ''context canceled''" and lastErr = None] t
    by (simp add: m u c cancelledAt_fails_transiently)
qed

subsection \<open>The boundary between success and error in one request\<close>

text \<open>
  Claim C8 says that every 2xx status is a success. \<open>doRequest\<close> compares the status with
  \<open>http.StatusOK\<close> only: a response with status 204 gives an \<open>APIError\<close>, which
  \<open>shouldRetry\<close> rejects.
\<close>

theorem status_204_is_an_error:
  "doRequest (\<lambda>body. Inr (0::nat)) (Response 204 []) =
     Inl (APIError 204 ''API returned status 204: '')
   \<and> \<not> shouldRetry (APIError 204 ''API returned status 204: '')"
  by (simp add: doRequest_def StatusOK_def Itoa_204)

text \<open>
  Claim C8, amended. Status 200 is the only status without an \<open>APIError\<close>: the body is
  decoded, and the request succeeds when the decoding does (a decoding failure is the
  error \<open>failed to decode response\<close>, which is retryable). Every other status, the other
  2xx statuses included, gives an \<open>APIError\<close> with that status, retryable exactly when
  the status is at least 500 or is 429; every wrapped error is retryable.
\<close>

theorem doRequest_status_boundary:
  "(status = 200 \<longrightarrow>
      doRequest dec (Response status body) =
        (case dec body of
           Inl e \<Rightarrow> Inl (Wrapped ''failed to decode response'' (Some e))
         | Inr r \<Rightarrow> Inr r))
   \<and> (status \<noteq> 200 \<longrightarrow>
      doRequest dec (Response status body) =
        Inl (APIError status (''API returned status '' @ Itoa status @ '': '' @ body)))
   \<and> ((\<exists>s m. doRequest dec (Response status body) = Inl (APIError s m)) \<longleftrightarrow> status \<noteq> 200)
   \<and> (shouldRetry (APIError status msg) \<longleftrightarrow> status \<ge> 500 \<or> status = 429)
   \<and> shouldRetry (Wrapped msg cause)"
  by (auto simp: doRequest_def StatusOK_def split: sum.splits)

theorem doRequest_status_boundary_witness:
  "doRequest (\<lambda>body. Inr (0::nat)) (Response 200 ''{}'') = Inr 0
   \<and> doRequest (\<lambda>body. Inr (0::nat)) (Response 404 []) =
       Inl (APIError 404 ''API returned status 404: '')
   \<and> \<not> shouldRetry (APIError 404 ''API returned status 404: '')"
  using doRequest_status_boundary [where status = 200 and dec = "\<lambda>body. Inr (0::nat)"
      and body = "''{}''"]
    doRequest_status_boundary [where status = 404 and dec = "\<lambda>body. Inr (0::nat)"
      and body = "[]" and msg = "''API returned status 404: ''"]
  by (simp add: Itoa_404)

subsection \<open>The backoff delays\<close>

lemma set_iterations:
  "a \<le> n \<Longrightarrow> n \<le> b \<Longrightarrow> set (iteration v cfg n) \<subseteq> set (iterations v cfg a b)"
  by (auto simp: iterations_def)

text \<open>The first attempt is made without a wait; retry \<open>n\<close> waits \<open>backoffDelay\<close> of \<open>n\<close>.\<close>

lemma delays_iterations:
  "delays (iterations v cfg a b) = map (backoffDelay v cfg) (filter (\<lambda>n. n > 0) [a..b])"
proof (induction "nat (b + 1 - a)" arbitrary: a)
  case 0
  then show ?case by (simp add: iterations_def)
next
  case (Suc k)
  then have "a \<le> b" by linarith
  then have "[a..b] = a # [a + 1..b]"
    by (simp add: upto_rec1)
  moreover have "delays (iterations v cfg (a + 1) b) =
      map (backoffDelay v cfg) (filter (\<lambda>n. n > 0) [a + 1..b])"
    using Suc by (intro Suc.hyps(1)) auto
  ultimately show ?case
    by (simp add: iterations_def delays_append iteration_def)
qed

text \<open>As long as the product is an \<open>int64\<close>, the delay is the capped, truncated product.\<close>

lemma backoffDelay_in_range:
  assumes "\<bar>towardZero (of_int (InitialDelay cfg) * BackoffMultiplier cfg ^ nat (n - 1))\<bar>
             < 2 ^ 63"
  shows "backoffDelay v cfg n =
     min (MaxDelay cfg)
       (towardZero (of_int (InitialDelay cfg) * BackoffMultiplier cfg ^ nat (n - 1)))"
  using assms by (auto simp: backoffDelay_def toDuration_def Let_def min_def)

lemma default_delays:
  "map (backoffDelay v defaultRetry) [1, 2, 3, 4, 5, 6, 7, 8] =
     [100 * Millisecond, 200 * Millisecond, 400 * Millisecond, 800 * Millisecond,
      1600 * Millisecond, 3200 * Millisecond, 5 * Second, 5 * Second]"
  by (simp add: backoffDelay_def defaultRetry_def toDuration_def towardZero_def
        Millisecond_def Second_def Let_def)

lemma backoffDelay_38:
  "backoffDelay amd64 (defaultRetry\<lparr>MaxRetries := 38\<rparr>) 38 = - 9223372036854775808"
  by (simp add: backoffDelay_def defaultRetry_def toDuration_def towardZero_def amd64_def
        Millisecond_def Second_def Let_def)

text \<open>
  Claim C4 says that the delay before retry \<open>n\<close> is
  \<open>min(maxDelay, initialDelay * backoffMultiplier^(n-1))\<close> for every \<open>n \<ge> 1\<close>. With the
  default delays (100 ms, factor 2, at most 5 s) the product of retry 38 is
  \<open>10^8 * 2^37\<close> nanoseconds, which is exact as a \<open>float64\<close> and exceeds the largest
  \<open>int64\<close>. Where the out-of-range conversion gives the least \<open>int64\<close>, the delay is that
  negative number: it is not greater than \<open>MaxDelay\<close>, so it is not capped, and
  \<open>time.After\<close> fires at once, whereas the formula gives 5 s. A client with
  \<open>MaxRetries = 38\<close> against a server that always answers 503 reaches that retry.
\<close>

theorem backoff_delay_overflows:
  "backoffDelay amd64 (defaultRetry\<lparr>MaxRetries := 38\<rparr>) 38 = - 9223372036854775808
   \<and> Slept (- 9223372036854775808)
       \<in> set (fst (doRequestWithRetry (defaultRetry\<lparr>MaxRetries := 38\<rparr>)
                    (always amd64 503) Map.empty))
   \<and> min (MaxDelay (defaultRetry\<lparr>MaxRetries := 38\<rparr>))
       (towardZero (of_int (InitialDelay (defaultRetry\<lparr>MaxRetries := 38\<rparr>))
          * BackoffMultiplier (defaultRetry\<lparr>MaxRetries := 38\<rparr>) ^ nat (38 - 1))) = 5 * Second"
proof (intro conjI)
  let ?cfg = "defaultRetry\<lparr>MaxRetries := 38\<rparr>"
  show d: "backoffDelay amd64 ?cfg 38 = - 9223372036854775808"
    by (rule backoffDelay_38)
  have "doRequestWithRetry ?cfg (always amd64 503) Map.empty =
      (iterations (ovf (always amd64 503 :: nat env)) ?cfg 0 (MaxRetries ?cfg),
       Inl (Wrapped ''max retries exceeded''
              (attemptError (always amd64 503) Map.empty (MaxRetries ?cfg))))"
    by (intro doRequestWithRetry_all_transient)
       (simp_all add: always_fails_transiently always_timerFires)
  then have tr: "fst (doRequestWithRetry ?cfg (always amd64 503) Map.empty) =
      iterations amd64 ?cfg 0 38"
    by (simp add: always_def)
  have "set (iteration amd64 ?cfg 38) \<subseteq> set (iterations amd64 ?cfg 0 38)"
    by (rule set_iterations) simp_all
  then show "Slept (- 9223372036854775808)
       \<in> set (fst (doRequestWithRetry ?cfg (always amd64 503) Map.empty))"
    unfolding tr by (auto simp: iteration_def d)
  show "min (MaxDelay ?cfg)
       (towardZero (of_int (InitialDelay ?cfg) * BackoffMultiplier ?cfg ^ nat (38 - 1))) =
       5 * Second"
    by (simp add: defaultRetry_def towardZero_def Millisecond_def Second_def)
qed

section \<open>Properties of the cache\<close>

text \<open>
  Claim C6. \<open>setCached\<close> creates or replaces the entry of the key, with \<open>expiresAt\<close> five
  minutes (the fixed time to live) after the clock, and leaves every other key alone. A
  later \<open>getCached\<close> of the key returns the stored pointer while the clock is not after
  \<open>expiresAt\<close> and nil once it is after it; a lookup changes no entry, so an expired
  entry is neither revived nor extended.
\<close>

theorem cache_put_then_get:
  "data (cache (setCached c now k v)) k = Some \<lparr>provider = v, expiresAt = now + 5 * Minute\<rparr>
   \<and> (k' \<noteq> k \<longrightarrow> data (cache (setCached c now k v)) k' = data (cache c) k')
   \<and> (later \<le> now + 5 * Minute \<longrightarrow> snd (getCached (setCached c now k v) later k) = v)
   \<and> (later > now + 5 * Minute \<longrightarrow> snd (getCached (setCached c now k v) later k) = None)
   \<and> data (cache (fst (getCached (setCached c now k v) later k))) =
       data (cache (setCached c now k v))"
  by (simp add: setCached_def getCached_def Let_def split: option.splits)

theorem cache_put_then_get_witness:
  "snd (getCached (setCached (NewClient [WithCache Minute]) 0 ''1043218118'' (Some (7::nat)))
          (5 * Minute) ''1043218118'') = Some 7
   \<and> snd (getCached (setCached (NewClient [WithCache Minute]) 0 ''1043218118'' (Some (7::nat)))
          (5 * Minute + 1) ''1043218118'') = None
   \<and> data (cache (setCached (NewClient [WithCache Minute]) 0 ''1043218118'' (Some (7::nat))))
       ''1234567890'' = None"
  using cache_put_then_get [where c = "NewClient [WithCache Minute]" and now = 0
      and k = "''1043218118''" and v = "Some (7::nat)" and later = "5 * Minute"
      and k' = "''1234567890''"]
    cache_put_then_get [where c = "NewClient [WithCache Minute]" and now = 0
      and k = "''1043218118''" and v = "Some (7::nat)" and later = "5 * Minute + 1"
      and k' = "''1234567890''"]
  by (simp add: NewClient_def WithCache_def)

lemma GetProviderByNPI_disabled:
  "\<not> enabled (cache c) \<Longrightarrow> fst (GetProviderByNPI c k npi) = c"
  by (simp add: GetProviderByNPI_def Let_def split: sum.splits list.splits)

lemma fetchAll_disabled: "\<not> enabled (cache c) \<Longrightarrow> fetchAll c calls = c"
  by (induction calls arbitrary: c) (auto simp: GetProviderByNPI_disabled)

lemma SearchProviders_cache:
  "SearchProviders (c\<lparr>cache := x\<rparr>) w opts = SearchProviders c w opts"
  by (simp add: SearchProviders_def)

text \<open>
  Claim C7. While the cache is disabled, as it is in a client built without \<open>WithCache\<close>,
  a fetch returns the client as it was: no entry is created, and the mutex of the store
  is not touched (\<open>enabled\<close> is tested before \<open>getCached\<close> and \<open>setCached\<close>, the only
  places that lock). The same holds after any sequence of fetches. The outcome of a
  fetch does not depend on the entries of the store: nothing is read, and every fetch
  takes the path of a miss.
\<close>

theorem disabled_cache_untouched:
  "(\<not> enabled (cache c) \<longrightarrow>
      fst (GetProviderByNPI c k npi) = c
      \<and> fetchAll c calls = c
      \<and> snd (GetProviderByNPI (c\<lparr>cache := (cache c)\<lparr>data := d\<rparr>\<rparr>) k npi) =
          snd (GetProviderByNPI c k npi))
   \<and> \<not> enabled (cache (NewClient []))
   \<and> data (cache (NewClient [])) = Map.empty
   \<and> mu (cache (NewClient [])) = []"
  by (auto simp: GetProviderByNPI_disabled fetchAll_disabled NewClient_def
        GetProviderByNPI_def SearchProviders_cache Let_def split: sum.splits list.splits)

lemma foundCall_result:
  "snd (GetProviderByNPI (NewClient []) foundCall ''1043218118'') = ([Request 0], Inr 7)"
  by (simp add: GetProviderByNPI_def NewClient_def foundCall_def SearchProviders_def
        doRequestWithRetry_def retryLoop.simps doRequest_def StatusOK_def defaultRetry_def
        DefaultMaxRetries_def Let_def)

theorem disabled_cache_untouched_witness:
  "\<not> enabled (cache (NewClient [] :: nat Client))
   \<and> GetProviderByNPI (NewClient []) foundCall ''1043218118'' =
       (NewClient [], [Request 0], Inr 7)
   \<and> fetchAll (NewClient []) [(foundCall, ''1043218118''), (foundCall, ''1043218118'')] =
       NewClient []"
proof -
  have off: "\<not> enabled (cache (NewClient [] :: nat Client))"
    by (simp add: NewClient_def)
  have "fst (GetProviderByNPI (NewClient []) foundCall ''1043218118'') = NewClient []
      \<and> fetchAll (NewClient []) [(foundCall, ''1043218118''), (foundCall, ''1043218118'')] =
          NewClient []"
    using disabled_cache_untouched [where c = "NewClient []" and k = foundCall
      and npi = "''1043218118''" and d = Map.empty
      and calls = "[(foundCall, ''1043218118''), (foundCall, ''1043218118'')]"] off
    by blast
  with off foundCall_result show ?thesis
    by (simp add: prod_eq_iff)
qed

section \<open>Properties of the batch fetch\<close>

subsection \<open>The concurrency ceiling\<close>

lemma filter_update_length:
  "i < length xs \<Longrightarrow>
     length (filter P (xs[i := y])) + (if P (xs ! i) then 1 else 0) =
     length (filter P xs) + (if P y then 1 else 0)"
proof (induction xs arbitrary: i)
  case Nil
  then show ?case by simp
next
  case (Cons x xs)
  then show ?case by (cases i) auto
qed

lemma step_phases_length:
  "step npis m b = Some b' \<Longrightarrow> length (phases b') = length (phases b)"
  by (cases m) (auto split: if_splits sum.splits)

lemma step_inFlight:
  assumes "step npis m b = Some b'" "inFlight b \<le> semaphoreCap"
  shows "inFlight b' \<le> semaphoreCap"
proof (cases m)
  case (Acquire i)
  with assms have i: "i < length (phases b)" "phases b ! i = Spawned" "inFlight b < semaphoreCap"
    and b': "phases b' = (phases b)[i := Fetching]"
    by (auto split: if_splits)
  from filter_update_length [OF i(1), of "\<lambda>ph. ph = Fetching" Fetching] i(2)
  have "inFlight b' = inFlight b + 1"
    by (simp add: inFlight_def b')
  with i(3) show ?thesis by simp
next
  case (Return i r)
  with assms have i: "i < length (phases b)" "phases b ! i = Fetching"
    and b': "phases b' = (phases b)[i := Finished]"
    by (auto split: if_splits sum.splits)
  from filter_update_length [OF i(1), of "\<lambda>ph. ph = Fetching" Finished] i(2)
  have "inFlight b' + 1 = inFlight b"
    by (simp add: inFlight_def b')
  with assms(2) show ?thesis by simp
qed

lemma run_inFlight:
  "run npis sched b = Some b' \<Longrightarrow> inFlight b \<le> semaphoreCap \<Longrightarrow> inFlight b' \<le> semaphoreCap"
proof (induction sched arbitrary: b)
  case Nil
  then show ?case by simp
next
  case (Cons m ms)
  then obtain b1 where s: "step npis m b = Some b1" and r: "run npis ms b1 = Some b'"
    by (auto split: option.splits)
  from step_inFlight [OF s Cons.prems(2)] Cons.IH [OF r] show ?case by blast
qed

lemma run_append:
  "run npis (xs @ ys) b = (case run npis xs b of None \<Rightarrow> None | Some b1 \<Rightarrow> run npis ys b1)"
  by (induction xs arbitrary: b) (auto split: option.splits)

lemma run_take:
  assumes "run npis sched b = Some b'"
  shows "\<exists>bk. run npis (take k sched) b = Some bk"
proof -
  have "run npis (take k sched @ drop k sched) b = Some b'"
    using assms by simp
  then show ?thesis
    unfolding run_append by (auto split: option.splits)
qed

lemma inFlight_startBatch: "inFlight (startBatch npis) = 0"
  by (simp add: inFlight_def startBatch_def)

text \<open>
  Claim C9. In every state that a batch call reaches, whatever the number of keys and
  whatever the schedule, at most 5 goroutines are inside \<open>GetProviderByNPI\<close>: the send
  on \<open>semaphore\<close>, a channel of capacity 5, admits a goroutine only while fewer than 5
  hold a slot. While 5 are in flight no further goroutine is admitted; it waits until
  one of them ends.
\<close>

theorem at_most_five_in_flight:
  "(run npis sched (startBatch npis) = Some b \<longrightarrow>
      inFlight b \<le> 5
      \<and> (\<forall>k. \<exists>bk. run npis (take k sched) (startBatch npis) = Some bk \<and> inFlight bk \<le> 5)
      \<and> (inFlight b = 5 \<longrightarrow> step npis (Acquire i) b = None))
   \<and> semaphoreCap = 5"
proof (intro conjI impI allI)
  assume r: "run npis sched (startBatch npis) = Some b"
  have z: "inFlight (startBatch npis :: 'a batch) \<le> semaphoreCap"
    by (simp add: inFlight_startBatch)
  show "inFlight b \<le> 5"
    using run_inFlight [OF r z] by (simp add: semaphoreCap_def)
  show "\<exists>bk. run npis (take k sched) (startBatch npis) = Some bk \<and> inFlight bk \<le> 5" for k
  proof -
    from run_take [OF r] obtain bk where k: "run npis (take k sched) (startBatch npis) = Some bk"
      by blast
    from run_inFlight [OF k z] k show ?thesis
      by (auto simp: semaphoreCap_def)
  qed
  show "step npis (Acquire i) b = None" if "inFlight b = 5"
    using that by (simp add: semaphoreCap_def)
next
  show "semaphoreCap = 5" by (simp add: semaphoreCap_def)
qed

subsection \<open>What a run records\<close>

lemma step_errChan:
  "step npis m b = Some b' \<Longrightarrow> errChan b' = errChan b @ failuresOf npis [m]"
  by (cases m) (auto split: if_splits sum.splits)

lemma failuresOf_Cons: "failuresOf npis (m # ms) = failuresOf npis [m] @ failuresOf npis ms"
  by (induction npis "[m]" rule: failuresOf.induct) auto

lemma run_errChan:
  "run npis sched b = Some b' \<Longrightarrow> errChan b' = errChan b @ failuresOf npis sched"
proof (induction sched arbitrary: b)
  case Nil
  then show ?case by simp
next
  case (Cons m ms)
  then obtain b1 where s: "step npis m b = Some b1" and r: "run npis ms b1 = Some b'"
    by (auto split: option.splits)
  from step_errChan [OF s] Cons.IH [OF r] show ?case
    by (subst failuresOf_Cons) simp
qed

lemma successesOf_Cons: "successesOf (m # ms) = successesOf [m] @ successesOf ms"
  by (induction "[m]" rule: successesOf.induct) auto

lemma fetched_Cons: "fetched npis (m # ms) = fetched npis [m] \<union> fetched npis ms"
  unfolding fetched_def by (subst successesOf_Cons) auto

lemma step_results_dom:
  "step npis m b = Some b' \<Longrightarrow> dom (results b') = dom (results b) \<union> fst ` fetched npis [m]"
  by (cases m) (auto simp: fetched_def split: if_splits sum.splits)

lemma run_results_dom:
  "run npis sched b = Some b' \<Longrightarrow> dom (results b') = dom (results b) \<union> fst ` fetched npis sched"
proof (induction sched arbitrary: b)
  case Nil
  then show ?case by (simp add: fetched_def)
next
  case (Cons m ms)
  then obtain b1 where s: "step npis m b = Some b1" and r: "run npis ms b1 = Some b'"
    by (auto split: option.splits)
  from step_results_dom [OF s] Cons.IH [OF r] show ?case
    by (subst fetched_Cons) auto
qed

lemma step_results_val:
  "step npis m b = Some b' \<Longrightarrow> results b' k = Some p \<Longrightarrow>
     results b k = Some p \<or> (k, p) \<in> fetched npis [m]"
  by (cases m) (auto simp: fetched_def split: if_splits sum.splits)

lemma run_results_val:
  "run npis sched b = Some b' \<Longrightarrow> results b' k = Some p \<Longrightarrow>
     results b k = Some p \<or> (k, p) \<in> fetched npis sched"
proof (induction sched arbitrary: b)
  case Nil
  then show ?case by simp
next
  case (Cons m ms)
  then obtain b1 where s: "step npis m b = Some b1" and r: "run npis ms b1 = Some b'"
    by (auto split: option.splits)
  from Cons.IH [OF r Cons.prems(2)] step_results_val [OF s] show ?case
    by (subst fetched_Cons) auto
qed

lemma returned_Cons: "returned (m # ms) = returned [m] @ returned ms"
  by (cases m) auto

lemma step_finished:
  "step npis m b = Some b1 \<Longrightarrow> i < length (phases b) \<Longrightarrow>
     (phases b1 ! i = Finished) = (phases b ! i = Finished \<or> i \<in> set (returned [m]))"
  by (cases m) (auto simp: nth_list_update split: if_splits sum.splits)

lemma step_returned_fetching:
  "step npis m b = Some b1 \<Longrightarrow> i \<in> set (returned [m]) \<Longrightarrow>
     i < length (phases b) \<and> i < length npis \<and> phases b ! i = Fetching"
  by (cases m) (auto split: if_splits)

lemma run_phases_length:
  "run npis sched b = Some b' \<Longrightarrow> length (phases b') = length (phases b)"
proof (induction sched arbitrary: b)
  case Nil
  then show ?case by simp
next
  case (Cons m ms)
  then obtain b1 where s: "step npis m b = Some b1" and r: "run npis ms b1 = Some b'"
    by (auto split: option.splits)
  from step_phases_length [OF s] Cons.IH [OF r] show ?case by simp
qed

lemma run_returned_bound:
  "run npis sched b = Some b' \<Longrightarrow> i \<in> set (returned sched) \<Longrightarrow>
     i < length (phases b) \<and> i < length npis \<and> phases b ! i \<noteq> Finished"
proof (induction sched arbitrary: b)
  case Nil
  then show ?case by simp
next
  case (Cons m ms)
  then obtain b1 where s: "step npis m b = Some b1" and r: "run npis ms b1 = Some b'"
    by (auto split: option.splits)
  from Cons.prems(2) have "i \<in> set (returned [m]) \<or> i \<in> set (returned ms)"
    by (subst (asm) returned_Cons) simp
  then show ?case
  proof
    assume "i \<in> set (returned [m])"
    from step_returned_fetching [OF s this] show ?thesis by simp
  next
    assume "i \<in> set (returned ms)"
    from Cons.IH [OF r this]
    have i: "i < length (phases b1)" "i < length npis" "phases b1 ! i \<noteq> Finished"
      by simp_all
    from i(1) step_phases_length [OF s] have l: "i < length (phases b)" by simp
    from step_finished [OF s l] i(3) have "phases b ! i \<noteq> Finished" by simp
    with l i(2) show ?thesis by simp
  qed
qed

lemma run_returned_distinct:
  "run npis sched b = Some b' \<Longrightarrow> distinct (returned sched)"
proof (induction sched arbitrary: b)
  case Nil
  then show ?case by simp
next
  case (Cons m ms)
  then obtain b1 where s: "step npis m b = Some b1" and r: "run npis ms b1 = Some b'"
    by (auto split: option.splits)
  have d1: "distinct (returned [m])"
    by (cases m) auto
  have "i \<notin> set (returned ms)" if "i \<in> set (returned [m])" for i
  proof
    assume "i \<in> set (returned ms)"
    from run_returned_bound [OF r this] have n: "phases b1 ! i \<noteq> Finished" by simp
    from step_returned_fetching [OF s that] have "i < length (phases b)" by simp
    from step_finished [OF s this] that have "phases b1 ! i = Finished" by simp
    with n show False by simp
  qed
  with d1 Cons.IH [OF r] show ?case
    by (subst returned_Cons) auto
qed

lemma run_finished_iff:
  "run npis sched b = Some b' \<Longrightarrow> i < length (phases b) \<Longrightarrow>
     (phases b' ! i = Finished) = (phases b ! i = Finished \<or> i \<in> set (returned sched))"
proof (induction sched arbitrary: b)
  case Nil
  then show ?case by simp
next
  case (Cons m ms)
  then obtain b1 where s: "step npis m b = Some b1" and r: "run npis ms b1 = Some b'"
    by (auto split: option.splits)
  from Cons.prems(2) step_phases_length [OF s] have "i < length (phases b1)" by simp
  from Cons.IH [OF r this] step_finished [OF s Cons.prems(2)] show ?case
    by (subst returned_Cons) auto
qed

text \<open>When \<open>wg.Wait()\<close> returns, every goroutine has run to its end, exactly once.\<close>

lemma complete_run_returned:
  assumes "run npis sched (startBatch npis) = Some b" "list_all (\<lambda>ph. ph = Finished) (phases b)"
  shows "mset (returned sched) = mset [0..<length npis]"
proof -
  have len: "length (phases b) = length npis"
    using run_phases_length [OF assms(1)] by (simp add: startBatch_def)
  have "i \<in> set (returned sched)" if "i < length npis" for i
  proof -
    from that have l: "i < length (phases (startBatch npis :: 'a batch))"
      by (simp add: startBatch_def)
    from assms(2) that len have "phases b ! i = Finished"
      by (simp add: list_all_length)
    with run_finished_iff [OF assms(1) l] that show ?thesis
      by (simp add: startBatch_def)
  qed
  moreover have "i < length npis" if "i \<in> set (returned sched)" for i
    using run_returned_bound [OF assms(1) that] by simp
  ultimately have "set (returned sched) = set [0..<length npis]"
    by auto
  with run_returned_distinct [OF assms(1)] show ?thesis
    by (metis set_eq_iff_mset_eq_distinct distinct_upt)
qed

lemma no_failures_all_succeed:
  "failuresOf npis sched = [] \<Longrightarrow> map fst (successesOf sched) = returned sched"
  by (induction npis sched rule: failuresOf.induct) auto

lemma length_failures_successes:
  "length (failuresOf npis sched) + length (successesOf sched) = length (returned sched)"
  by (induction npis sched rule: failuresOf.induct) auto


lemma GetProvidersByNPIs_complete:
  assumes "npis \<noteq> []" and "GetProvidersByNPIs npis sched = Some (m, e)"
  shows "\<exists>b. run npis sched (startBatch npis) = Some b
           \<and> list_all (\<lambda>ph. ph = Finished) (phases b)
           \<and> m = Some (results b) \<and> e = batchError (errChan b)"
proof (cases "run npis sched (startBatch npis)")
  case None
  with assms show ?thesis
    by (simp add: GetProvidersByNPIs_def)
next
  case (Some b)
  show ?thesis
  proof (cases "list_all (\<lambda>ph. ph = Finished) (phases b)")
    case False
    with Some assms show ?thesis
      by (simp add: GetProvidersByNPIs_def)
  next
    case True
    show ?thesis
    proof (cases "errChan b")
      case Nil
      with True Some assms show ?thesis
        by (simp add: GetProvidersByNPIs_def batchError_def)
    next
      case (Cons x xs)
      with True Some assms show ?thesis
        by (simp add: GetProvidersByNPIs_def batchError_def)
    qed
  qed
qed


lemma complete_run_dom:
  assumes "run npis sched (startBatch npis) = Some b"
  shows "dom (results b) = fst ` fetched npis sched"
  using run_results_dom [OF assms] by (simp add: startBatch_def)

lemma complete_run_val:
  assumes "run npis sched (startBatch npis) = Some b" "results b k = Some p"
  shows "(k, p) \<in> fetched npis sched"
  using run_results_val [OF assms] by (simp add: startBatch_def)

lemma no_failures_fetched:
  assumes "failuresOf npis sched = []" "mset (returned sched) = mset [0..<length npis]"
  shows "fst ` fetched npis sched = set npis"
proof -
  have "set (map fst (successesOf sched)) = set (returned sched)"
    using no_failures_all_succeed [OF assms(1)] by simp
  also have "\<dots> = {0..<length npis}"
    using mset_eq_setD [OF assms(2)] by simp
  finally have idx: "fst ` set (successesOf sched) = {0..<length npis}"
    by simp
  have "fst ` fetched npis sched = (\<lambda>i. npis ! i) ` (fst ` set (successesOf sched))"
    by (force simp: fetched_def)
  also have "\<dots> = set npis"
    unfolding idx by (auto simp: set_conv_nth)
  finally show ?thesis .
qed

text \<open>What a call that returns has done and what it returns.\<close>

lemma complete_run_result:
  assumes "npis \<noteq> []" and "GetProvidersByNPIs npis sched = Some (m, e)"
  shows "mset (returned sched) = mset [0..<length npis]
    \<and> length (failuresOf npis sched) + length (successesOf sched) = length npis
    \<and> (\<exists>res. m = Some res
          \<and> dom res = fst ` fetched npis sched
          \<and> (\<forall>k p. res k = Some p \<longrightarrow> (k, p) \<in> fetched npis sched)
          \<and> (failuresOf npis sched = [] \<longrightarrow> dom res = set npis))
    \<and> (e = None \<longleftrightarrow> failuresOf npis sched = [])
    \<and> (failuresOf npis sched \<noteq> [] \<longrightarrow>
          e = Some (Plain (''batch fetch completed with ''
                @ Itoa (int (length (failuresOf npis sched)))
                @ '' errors: '' @ errorString (hd (failuresOf npis sched)))))"
proof -
  from GetProvidersByNPIs_complete [OF assms] obtain b
    where r: "run npis sched (startBatch npis) = Some b"
      and fin: "list_all (\<lambda>ph. ph = Finished) (phases b)"
      and m: "m = Some (results b)" and e: "e = batchError (errChan b)"
    by blast
  have errs: "errChan b = failuresOf npis sched"
    using run_errChan [OF r] by (simp add: startBatch_def)
  have all: "mset (returned sched) = mset [0..<length npis]"
    by (rule complete_run_returned [OF r fin])
  have "length (returned sched) = length npis"
    using mset_eq_length [OF all] by simp
  then have count: "length (failuresOf npis sched) + length (successesOf sched) = length npis"
    using length_failures_successes [of npis sched] by simp
  have res: "dom (results b) = fst ` fetched npis sched
      \<and> (\<forall>k p. results b k = Some p \<longrightarrow> (k, p) \<in> fetched npis sched)
      \<and> (failuresOf npis sched = [] \<longrightarrow> dom (results b) = set npis)"
    using complete_run_dom [OF r] complete_run_val [OF r] no_failures_fetched [OF _ all]
    by simp
  have e1: "e = None \<longleftrightarrow> failuresOf npis sched = []"
    by (simp add: e errs batchError_def)
  have e2: "failuresOf npis sched \<noteq> [] \<longrightarrow>
          e = Some (Plain (''batch fetch completed with ''
                @ Itoa (int (length (failuresOf npis sched)))
                @ '' errors: '' @ errorString (hd (failuresOf npis sched))))"
    by (simp add: e errs batchError_def)
  from all count m res e1 e2 show ?thesis
    by blast
qed

subsection \<open>Complete runs exist\<close>

lemma update_boundary:
  "k < n \<Longrightarrow> (replicate k a @ replicate (n - k) c)[k := a] =
     replicate (Suc k) a @ replicate (n - Suc k) c"
proof -
  assume "k < n"
  then have "n - k = Suc (n - Suc k)" by simp
  then have "replicate (n - k) c = c # replicate (n - Suc k) c"
    by (metis replicate_Suc)
  then show ?thesis
    by (simp add: list_update_append replicate_append_same)
qed

lemma run_oneByOne:
  "k \<le> length npis \<Longrightarrow>
     \<exists>b. run npis (oneByOne outcome k) (startBatch npis) = Some b
        \<and> phases b = replicate k Finished @ replicate (length npis - k) Spawned"
proof (induction k)
  case 0
  then show ?case by (simp add: oneByOne_def startBatch_def)
next
  case (Suc k)
  then obtain b where r: "run npis (oneByOne outcome k) (startBatch npis) = Some b"
    and ph: "phases b = replicate k Finished @ replicate (length npis - k) Spawned"
    by auto
  from Suc.prems have k: "k < length npis" by simp
  have sp: "phases b ! k = Spawned"
    using k by (simp add: ph nth_append)
  have fl: "inFlight b = 0"
    by (simp add: inFlight_def ph)
  let ?b1 = "b\<lparr>phases := (phases b)[k := Fetching]\<rparr>"
  have s1: "step npis (Acquire k) b = Some ?b1"
    using k sp fl by (simp add: ph semaphoreCap_def)
  obtain b2 where s2: "step npis (Return k (outcome k)) ?b1 = Some b2"
    and ph2: "phases b2 = (phases b)[k := Finished]"
    using k by (cases "outcome k") (simp_all add: ph)
  have "oneByOne outcome (Suc k) = oneByOne outcome k @ [Acquire k, Return k (outcome k)]"
    by (simp add: oneByOne_def)
  then have "run npis (oneByOne outcome (Suc k)) (startBatch npis) = Some b2"
    using r s1 s2 by (simp add: run_append)
  moreover have "phases b2 = replicate (Suc k) Finished @ replicate (length npis - Suc k) Spawned"
    unfolding ph2 ph using k by (rule update_boundary)
  ultimately show ?case by blast
qed

text \<open>Whatever the fetches return, a complete run exists: the call can return.\<close>

lemma GetProvidersByNPIs_returns:
  "GetProvidersByNPIs npis (oneByOne outcome (length npis)) \<noteq> None"
proof (cases "npis = []")
  case True
  then show ?thesis by (simp add: GetProvidersByNPIs_def)
next
  case False
  from run_oneByOne [of "length npis" npis outcome] obtain b
    where "run npis (oneByOne outcome (length npis)) (startBatch npis) = Some b"
      and "phases b = replicate (length npis) Finished"
    by auto
  with False show ?thesis
    by (simp add: GetProvidersByNPIs_def Let_def list_all_length)
qed


text \<open>A run that is not complete can always go on: the batch never blocks for good.\<close>

lemma never_stuck:
  assumes "run npis sched (startBatch npis) = Some b"
    and "\<not> list_all (\<lambda>ph. ph = Finished) (phases b)"
  shows "\<exists>m b'. step npis m b = Some b'"
proof -
  have len: "length (phases b) = length npis"
    using run_phases_length [OF assms(1)] by (simp add: startBatch_def)
  show ?thesis
  proof (cases "\<exists>i < length (phases b). phases b ! i = Fetching")
    case True
    then obtain i where "i < length (phases b)" "phases b ! i = Fetching"
      by blast
    then have "step npis (Return i (Inl (Plain []))) b \<noteq> None"
      using len by simp
    then show ?thesis by blast
  next
    case False
    then have "filter (\<lambda>ph. ph = Fetching) (phases b) = []"
      by (auto simp: filter_empty_conv in_set_conv_nth)
    then have fl: "inFlight b = 0"
      by (simp add: inFlight_def)
    from assms(2) obtain i where i: "i < length (phases b)" "phases b ! i \<noteq> Finished"
      by (auto simp: list_all_length)
    with False have "phases b ! i = Spawned"
      by (cases "phases b ! i") auto
    with i fl have "step npis (Acquire i) b \<noteq> None"
      by (simp add: semaphoreCap_def)
    then show ?thesis by blast
  qed
qed

lemma remaining_update:
  "i < length xs \<Longrightarrow>
     sum_list (map remaining (xs[i := y])) + remaining (xs ! i) =
     sum_list (map remaining xs) + remaining y"
proof (induction xs arbitrary: i)
  case Nil
  then show ?case by simp
next
  case (Cons x xs)
  then show ?case by (cases i) auto
qed

lemma unfinished_step:
  assumes len: "length (phases b) = length npis"
    and un: "\<not> list_all (\<lambda>ph. ph = Finished) (phases b)"
  shows "\<exists>mv b1. step npis mv b = Some b1 \<and> workLeft b1 < workLeft b
           \<and> returnsAs outcome [mv]"
proof (cases "\<exists>i < length (phases b). phases b ! i = Fetching")
  case True
  then obtain i where i: "i < length (phases b)" "phases b ! i = Fetching"
    by blast
  obtain b1 where s: "step npis (Return i (outcome i)) b = Some b1"
    and ph: "phases b1 = (phases b)[i := Finished]"
    using i len by (cases "outcome i") simp_all
  from remaining_update [OF i(1), of Finished] i(2)
  have "workLeft b1 < workLeft b"
    by (simp add: workLeft_def ph)
  moreover have "returnsAs outcome [Return i (outcome i)]"
    by (simp add: returnsAs_def)
  ultimately show ?thesis
    using s by blast
next
  case False
  then have "filter (\<lambda>ph. ph = Fetching) (phases b) = []"
    by (auto simp: filter_empty_conv in_set_conv_nth)
  then have fl: "inFlight b = 0"
    by (simp add: inFlight_def)
  from un obtain i where i: "i < length (phases b)" "phases b ! i \<noteq> Finished"
    by (auto simp: list_all_length)
  with False have sp: "phases b ! i = Spawned"
    by (cases "phases b ! i") auto
  let ?b1 = "b\<lparr>phases := (phases b)[i := Fetching]\<rparr>"
  have s: "step npis (Acquire i) b = Some ?b1"
    using i sp fl by (simp add: semaphoreCap_def)
  from remaining_update [OF i(1), of Fetching] sp
  have "workLeft ?b1 < workLeft b"
    by (simp add: workLeft_def)
  moreover have "returnsAs outcome [Acquire i]"
    by (simp add: returnsAs_def)
  ultimately show ?thesis
    using s by blast
qed

text \<open>Every batch in progress can be run to its end, whatever the fetches return.\<close>

lemma can_complete:
  "length (phases b) = length npis \<Longrightarrow>
     \<exists>rest b'. run npis rest b = Some b' \<and> list_all (\<lambda>ph. ph = Finished) (phases b')
        \<and> returnsAs outcome rest"
proof (induction "workLeft b" arbitrary: b rule: less_induct)
  case less
  show ?case
  proof (cases "list_all (\<lambda>ph. ph = Finished) (phases b)")
    case True
    then have "run npis [] b = Some b \<and> list_all (\<lambda>ph. ph = Finished) (phases b)
        \<and> returnsAs outcome []"
      by (simp add: returnsAs_def)
    then show ?thesis by blast
  next
    case False
    from unfinished_step [OF less.prems False, of outcome] obtain mv b1
      where s: "step npis mv b = Some b1" and w: "workLeft b1 < workLeft b"
        and o: "returnsAs outcome [mv]"
      by blast
    have len: "length (phases b1) = length npis"
      using step_phases_length [OF s] less.prems by simp
    from less.hyps [OF w len] obtain rest b'
      where r: "run npis rest b1 = Some b'"
        and fin: "list_all (\<lambda>ph. ph = Finished) (phases b')"
        and o': "returnsAs outcome rest"
      by blast
    have "run npis (mv # rest) b = Some b'"
      using s r by simp
    moreover have "returnsAs outcome (mv # rest)"
      using o o' by (simp add: returnsAs_def)
    ultimately show ?thesis
      using fin by blast
  qed
qed

lemma complete_run_returns:
  assumes "npis \<noteq> []" "run npis sched (startBatch npis) = Some b"
    and "list_all (\<lambda>ph. ph = Finished) (phases b)"
  shows "GetProvidersByNPIs npis sched = Some (Some (results b), batchError (errChan b))"
proof (cases "errChan b")
  case Nil
  with assms show ?thesis
    by (simp add: GetProvidersByNPIs_def batchError_def)
next
  case (Cons x xs)
  with assms show ?thesis
    by (simp add: GetProvidersByNPIs_def batchError_def)
qed

lemma any_run_can_return:
  assumes "npis \<noteq> []" "run npis sched (startBatch npis) = Some b"
  shows "\<exists>rest m e. returnsAs outcome rest \<and> GetProvidersByNPIs npis (sched @ rest) = Some (m, e)"
proof -
  have "length (phases b) = length npis"
    using run_phases_length [OF assms(2)] by (simp add: startBatch_def)
  from can_complete [OF this, of outcome] obtain rest b'
    where r: "run npis rest b = Some b'"
      and fin: "list_all (\<lambda>ph. ph = Finished) (phases b')"
      and o: "returnsAs outcome rest"
    by blast
  have "run npis (sched @ rest) (startBatch npis) = Some b'"
    using assms(2) r by (simp add: run_append)
  from complete_run_returns [OF assms(1) this fin] o show ?thesis
    by blast
qed

lemma oneByOne_returns:
  assumes "npis \<noteq> []"
  shows "\<exists>m e. GetProvidersByNPIs npis (oneByOne outcome (length npis)) = Some (m, e)"
  using GetProvidersByNPIs_returns [of npis outcome] by (cases "GetProvidersByNPIs npis (oneByOne outcome (length npis))") auto

text \<open>
  Claim C2. A non-empty batch returns: whatever each fetch returns, the run that takes
  the fetches one by one is complete, and every run in progress (every schedule so far,
  failures included) can be continued to a complete one, so no failure ends the batch
  early and nothing blocks it for good. When \<open>GetProvidersByNPIs\<close> returns, every
  goroutine has run to its end exactly once, failures or not (\<open>wg.Wait()\<close> returns
  only then), so the failed and the successful fetches together are as many as the
  keys. The returned map is non-nil, its keys are exactly the keys with a successful
  fetch, and each is mapped to a provider fetched for it; with no failure the keys are
  all the requested keys. The returned error is nil exactly when no fetch failed;
  otherwise its message carries the number of failures and the text of the first error
  sent on \<open>errChan\<close>, which names the key that failed.
\<close>

theorem batch_partial_failure:
  assumes "npis \<noteq> []"
  shows "(\<exists>m e. GetProvidersByNPIs npis (oneByOne outcome (length npis)) = Some (m, e))
    \<and> (run npis sched (startBatch npis) = Some b \<longrightarrow>
          (\<exists>rest m e. returnsAs outcome rest
             \<and> GetProvidersByNPIs npis (sched @ rest) = Some (m, e)))
    \<and> (GetProvidersByNPIs npis sched = Some (m, e) \<longrightarrow>
          mset (returned sched) = mset [0..<length npis]
          \<and> length (failuresOf npis sched) + length (successesOf sched) = length npis
          \<and> (\<exists>res. m = Some res
                \<and> dom res = fst ` fetched npis sched
                \<and> (\<forall>k p. res k = Some p \<longrightarrow> (k, p) \<in> fetched npis sched)
                \<and> (failuresOf npis sched = [] \<longrightarrow> dom res = set npis))
          \<and> (e = None \<longleftrightarrow> failuresOf npis sched = [])
          \<and> (failuresOf npis sched \<noteq> [] \<longrightarrow>
                e = Some (Plain (''batch fetch completed with ''
                      @ Itoa (int (length (failuresOf npis sched)))
                      @ '' errors: '' @ errorString (hd (failuresOf npis sched))))))"
proof (intro conjI impI)
  show "\<exists>m e. GetProvidersByNPIs npis (oneByOne outcome (length npis)) = Some (m, e)"
    by (rule oneByOne_returns [OF assms])
next
  assume "run npis sched (startBatch npis) = Some b"
  from any_run_can_return [OF assms this]
  show "\<exists>rest m e. returnsAs outcome rest
      \<and> GetProvidersByNPIs npis (sched @ rest) = Some (m, e)" .
next
  assume r: "GetProvidersByNPIs npis sched = Some (m, e)"
  note ret = complete_run_result [OF assms r]
  from ret show "mset (returned sched) = mset [0..<length npis]"
    by blast
  from ret
  show "length (failuresOf npis sched) + length (successesOf sched) = length npis"
    by blast
  from ret show "\<exists>res. m = Some res
      \<and> dom res = fst ` fetched npis sched
      \<and> (\<forall>k p. res k = Some p \<longrightarrow> (k, p) \<in> fetched npis sched)
      \<and> (failuresOf npis sched = [] \<longrightarrow> dom res = set npis)"
    by blast
  from ret show "e = None \<longleftrightarrow> failuresOf npis sched = []"
    by blast
  from ret show "e = Some (Plain (''batch fetch completed with ''
        @ Itoa (int (length (failuresOf npis sched)))
        @ '' errors: '' @ errorString (hd (failuresOf npis sched))))"
    if "failuresOf npis sched \<noteq> []"
    using that by blast
qed

subsection \<open>The example batches\<close>

lemma notFoundCall_result:
  "snd (snd (GetProviderByNPI (NewClient []) notFoundCall ''9999999999'')) = Inl notFound"
  by (simp add: GetProviderByNPI_def NewClient_def notFoundCall_def
        SearchProviders_def doRequestWithRetry_def retryLoop.simps doRequest_def StatusOK_def
        defaultRetry_def DefaultMaxRetries_def Let_def notFound_def Itoa_404)

lemma threeKeys_result:
  "GetProvidersByNPIs threeKeys threeKeysSchedule =
     Some (Some [''1111111111'' \<mapsto> 3, ''1234567890'' \<mapsto> 1],
           Some (Plain (''batch fetch completed with 1 errors: ''
             @ ''failed to fetch NPI 9999999999: failed to get provider by NPI 9999999999: ''
             @ ''search providers failed: API returned status 404: '')))"
  by (simp add: GetProvidersByNPIs_def threeKeys_def threeKeysSchedule_def startBatch_def
        inFlight_def semaphoreCap_def notFound_def Itoa_def natDigits.simps digitChar_def)

lemma allFound_result:
  "GetProvidersByNPIs threeKeys (oneByOne (\<lambda>i. Inr (7::nat)) (length threeKeys)) =
     Some (Some [''1234567890'' \<mapsto> 7, ''9999999999'' \<mapsto> 7, ''1111111111'' \<mapsto> 7], None)"
  by (simp add: GetProvidersByNPIs_def threeKeys_def oneByOne_def upt_rec startBatch_def
        inFlight_def semaphoreCap_def)

lemma twoFailures_result:
  "GetProvidersByNPIs threeKeys twoFailuresSchedule =
     Some (Some [''1111111111'' \<mapsto> 3],
           Some (Plain (''batch fetch completed with 2 errors: ''
             @ ''failed to fetch NPI 9999999999: failed to get provider by NPI 9999999999: ''
             @ ''search providers failed: API returned status 404: '')))"
  by (simp add: GetProvidersByNPIs_def threeKeys_def twoFailuresSchedule_def startBatch_def
        inFlight_def semaphoreCap_def notFound_def Itoa_def natDigits.simps digitChar_def)

theorem batch_partial_failure_witness:
  "threeKeys \<noteq> []
   \<and> GetProvidersByNPIs threeKeys threeKeysSchedule =
       Some (Some [''1111111111'' \<mapsto> 3, ''1234567890'' \<mapsto> 1],
             Some (Plain (''batch fetch completed with 1 errors: ''
               @ ''failed to fetch NPI 9999999999: failed to get provider by NPI 9999999999: ''
               @ ''search providers failed: API returned status 404: '')))
   \<and> mset (returned threeKeysSchedule) = mset [0..<length threeKeys]
   \<and> length (failuresOf threeKeys threeKeysSchedule) = 1
   \<and> dom [''1111111111'' \<mapsto> 3::nat, ''1234567890'' \<mapsto> 1] = {''1234567890'', ''1111111111''}
   \<and> GetProvidersByNPIs threeKeys (oneByOne (\<lambda>i. Inr (7::nat)) (length threeKeys)) =
       Some (Some [''1234567890'' \<mapsto> 7, ''9999999999'' \<mapsto> 7, ''1111111111'' \<mapsto> 7], None)
   \<and> failuresOf threeKeys (oneByOne (\<lambda>i. Inr (7::nat)) (length threeKeys)) = []
   \<and> dom [''1234567890'' \<mapsto> 7::nat, ''9999999999'' \<mapsto> 7, ''1111111111'' \<mapsto> 7] =
       set threeKeys
   \<and> GetProvidersByNPIs threeKeys twoFailuresSchedule =
       Some (Some [''1111111111'' \<mapsto> 3],
             Some (Plain (''batch fetch completed with 2 errors: ''
               @ ''failed to fetch NPI 9999999999: failed to get provider by NPI 9999999999: ''
               @ ''search providers failed: API returned status 404: '')))
   \<and> length (failuresOf threeKeys twoFailuresSchedule) = 2
   \<and> mset (returned twoFailuresSchedule) = mset [0..<length threeKeys]
   \<and> (\<exists>rest m e. returnsAs (\<lambda>i. Inr (7::nat)) rest
         \<and> GetProvidersByNPIs threeKeys ([Acquire 0, Acquire 1] @ rest) = Some (m, e))"
proof -
  have ne: "threeKeys \<noteq> []"
    by (simp add: threeKeys_def)
  have f1: "length (failuresOf threeKeys threeKeysSchedule) = 1"
    by (simp add: threeKeysSchedule_def)
  have f2: "length (failuresOf threeKeys twoFailuresSchedule) = 2"
    by (simp add: twoFailuresSchedule_def)
  have f0: "failuresOf threeKeys (oneByOne (\<lambda>i. Inr (7::nat)) (length threeKeys)) = []"
    by (simp add: threeKeys_def oneByOne_def upt_rec)
  have started: "run threeKeys [Acquire 0, Acquire 1] (startBatch threeKeys) =
      Some \<lparr>phases = [Fetching, Fetching, Spawned], results = Map.empty, errChan = []\<rparr>"
    by (simp add: threeKeys_def startBatch_def inFlight_def semaphoreCap_def)
  note one = batch_partial_failure [OF ne, where sched = threeKeysSchedule
      and outcome = "\<lambda>i. Inr (7::nat)"]
  note two = batch_partial_failure [OF ne, where sched = twoFailuresSchedule
      and outcome = "\<lambda>i. Inr (7::nat)"]
  note zero = batch_partial_failure [OF ne,
      where sched = "oneByOne (\<lambda>i. Inr (7::nat)) (length threeKeys)"
      and outcome = "\<lambda>i. Inr (7::nat)"]
  note cont = batch_partial_failure [OF ne, where sched = "[Acquire 0, Acquire 1]"
      and outcome = "\<lambda>i. Inr (7::nat)"
      and b = "\<lparr>phases = [Fetching, Fetching, Spawned], results = Map.empty, errChan = []\<rparr>"]
  have r1: "mset (returned threeKeysSchedule) = mset [0..<length threeKeys]"
    using one threeKeys_result by blast
  have r2: "mset (returned twoFailuresSchedule) = mset [0..<length threeKeys]"
    using two twoFailures_result by blast
  have d0: "dom [''1234567890'' \<mapsto> 7::nat, ''9999999999'' \<mapsto> 7, ''1111111111'' \<mapsto> 7] =
      set threeKeys"
    using zero allFound_result f0 by blast
  have c: "\<exists>rest m e. returnsAs (\<lambda>i. Inr (7::nat)) rest
         \<and> GetProvidersByNPIs threeKeys ([Acquire 0, Acquire 1] @ rest) = Some (m, e)"
    using cont started by blast
  have d1: "dom [''1111111111'' \<mapsto> 3::nat, ''1234567890'' \<mapsto> 1] =
      {''1234567890'', ''1111111111''}"
    by auto
  from ne threeKeys_result r1 f1 d1 allFound_result f0 d0 twoFailures_result f2 r2 c
  show ?thesis
    by blast
qed

lemma fiveAcquired_run:
  "run sixKeys [Acquire 0, Acquire 1, Acquire 2, Acquire 3, Acquire 4] (startBatch sixKeys) =
     Some fiveAcquired"
  by (simp add: sixKeys_def startBatch_def fiveAcquired_def inFlight_def semaphoreCap_def)

theorem at_most_five_in_flight_witness:
  "run sixKeys [Acquire 0, Acquire 1, Acquire 2, Acquire 3, Acquire 4] (startBatch sixKeys) =
     Some fiveAcquired
   \<and> inFlight fiveAcquired = 5
   \<and> step sixKeys (Acquire 5) fiveAcquired = None"
proof -
  have five: "inFlight fiveAcquired = 5"
    by (simp add: inFlight_def fiveAcquired_def)
  from at_most_five_in_flight [where npis = sixKeys and b = fiveAcquired and i = 5
      and sched = "[Acquire 0, Acquire 1, Acquire 2, Acquire 3, Acquire 4]"]
    fiveAcquired_run five
  show ?thesis by blast
qed

end
